theory Spec2Isabelle
  imports Main "HOL-Library.Sublist"
begin

section \<open>Python values used by news\_scraper.py\<close>

text \<open>
  Python strings are modelled as \<^typ>\<open>string\<close>; one \<^typ>\<open>char\<close> stands for one code
  point (the code points below 256). \<open>isspace\<close> lists the code points below 256 for
  which Python's \<open>str.isspace\<close> holds; \<open>strip\<close> is \<open>str.strip()\<close> without argument.
\<close>

definition isspace :: "char \<Rightarrow> bool" where
  "isspace c = (of_char c \<in> {9, 10, 11, 12, 13, 28, 29, 30, 31, 32, 133, 160 :: nat})"

definition strip :: "string \<Rightarrow> string" where
  "strip s = rev (dropWhile isspace (rev (dropWhile isspace s)))"

text \<open>\<open>a or b\<close> on two strings: the empty string is the only falsy one.\<close>

definition py_or :: "string \<Rightarrow> string \<Rightarrow> string" where
  "py_or a b = (if a \<noteq> [] then a else b)"

text \<open>
  \<open>xs[:n]\<close> for a Python int \<open>n\<close>: the first \<open>n\<close> elements when \<open>n\<close> is not negative,
  all but the last \<open>-n\<close> elements when it is.
\<close>

definition py_slice_to :: "'a list \<Rightarrow> int \<Rightarrow> 'a list" where
  "py_slice_to xs n =
     (if 0 \<le> n then take (nat n) xs else take (nat (int (length xs) + n)) xs)"

text \<open>
  A \<open>datetime\<close> value is either offset-naive or offset-aware. The integer is its
  position on its own time line (the wall-clock reading of a naive value, the UTC
  instant of an aware one): Python orders two naive values and two aware values by
  it, and raises \<open>TypeError\<close> when asked to order a naive value against an aware one.
\<close>

datatype datetime = Naive int | Aware int

fun instant :: "datetime \<Rightarrow> int" where
  "instant (Naive t) = t"
| "instant (Aware t) = t"

fun is_aware :: "datetime \<Rightarrow> bool" where
  "is_aware (Naive t) = False"
| "is_aware (Aware t) = True"

section \<open>Headline rows\<close>

text \<open>
  The dict appended to \<open>rows\<close> in \<open>try_feed_urls\<close> (lines 100--106): always the five
  keys \<open>source\<close>, \<open>title\<close>, \<open>link\<close>, \<open>published\<close>, \<open>published_dt\<close>; the first four
  hold strings, the last a \<open>datetime\<close> or \<open>None\<close>.
\<close>

record row =
  source :: string
  title :: string
  link :: string
  published :: string
  published_dt :: "datetime option"

section \<open>dedupe (lines 111--122)\<close>

text \<open>
  The key computed at line 115:
  \<^verbatim>\<open>key = (r.get("link") or r.get("title") or "").strip()\<close>.
\<close>

definition dedupe_key :: "row \<Rightarrow> string" where
  "dedupe_key r = strip (py_or (py_or (link r) (title r)) [])"

text \<open>
  The loop of \<open>dedupe\<close>, with its two local variables \<open>seen\<close> and \<open>out\<close> as arguments:
  a row whose key is empty is skipped, a row whose key is in \<open>seen\<close> is skipped, any
  other row is appended to \<open>out\<close> and its key added to \<open>seen\<close>.
\<close>

fun dedupe_loop :: "row list \<Rightarrow> string set \<Rightarrow> row list \<Rightarrow> row list" where
  "dedupe_loop [] seen out = out"
| "dedupe_loop (r # rows) seen out =
     (let key = dedupe_key r in
      if key = [] then dedupe_loop rows seen out
      else if key \<in> seen then dedupe_loop rows seen out
      else dedupe_loop rows (insert key seen) (out @ [r]))"

definition dedupe :: "row list \<Rightarrow> row list" where
  "dedupe rows = dedupe_loop rows {} []"

section \<open>The outside world\<close>

text \<open>
  What \<open>requests.get\<close> gives back: a response (\<open>r.status_code\<close>, \<open>r.text\<close>, the
  \<open>Content-Type\<close> header when the server sent one), or an exception, kept as its
  message \<open>str(e)\<close>.
\<close>

record response =
  status_code :: int
  body_text :: string
  content_type :: "string option"

text \<open>
  One entry of a parsed feed, read by \<open>getattr\<close> with a default: \<open>None\<close> stands for an
  attribute the entry does not have (for \<open>published_parsed\<close> also for the value
  \<open>None\<close>). \<open>published_parsed\<close> is a tuple of ints.
\<close>

record raw_entry =
  e_title :: "string option"
  e_link :: "string option"
  e_published :: "string option"
  e_updated :: "string option"
  e_published_parsed :: "int list option"

text \<open>The result of \<open>feedparser.parse\<close>: \<open>bozo\<close>, \<open>bozo_exception\<close>, \<open>entries\<close>.\<close>

record parsed =
  bozo :: bool
  bozo_exception :: string
  entries :: "raw_entry list"

text \<open>
  The library calls the program makes, as parameters of the model:
  \<^item> \<open>requests_get hist url\<close> is the outcome of \<open>requests.get(url, ...)\<close> when \<open>hist\<close>
    are the URLs requested earlier in the run, \<open>Inl msg\<close> when it raises;
  \<^item> \<open>feedparser_parse text\<close> is \<open>feedparser.parse(text)\<close>;
  \<^item> \<open>datetime_ctor args\<close> is \<open>datetime(*args)\<close>, a naive value given by its position
    on the time line, \<open>None\<close> when the constructor raises;
  \<^item> \<open>dateutil_parse s\<close> is \<open>dateutil_parser.parse(s)\<close>, \<open>None\<close> when it raises;
  \<^item> \<open>to_csv name rows\<close> is the outcome of building the table of \<open>rows\<close> (lines
    125--133) and writing it with \<open>df.to_csv(name, ...)\<close>: \<open>None\<close> when both return,
    \<open>Some msg\<close> when one of them raises;
  \<^item> \<open>to_excel name rows\<close> is the outcome of \<open>df.to_excel(name, ...)\<close> on that table:
    \<open>None\<close> when it returns, \<open>Some msg\<close> when it raises.
\<close>

record env =
  requests_get :: "string list \<Rightarrow> string \<Rightarrow> string + response"
  feedparser_parse :: "string \<Rightarrow> parsed"
  datetime_ctor :: "int list \<Rightarrow> int option"
  dateutil_parse :: "string \<Rightarrow> datetime option"
  to_csv :: "string \<Rightarrow> row list \<Rightarrow> string option"
  to_excel :: "string \<Rightarrow> row list \<Rightarrow> string option"

datatype run_mode = per_source | global_top

text \<open>
  One constructor per \<open>print\<close> statement of the program, with the values the
  statement interpolates. \<open>TopBlock i r\<close> is the block printed for the \<open>i\<close>-th row
  \<open>r\<close> of the table at lines 167--172.
\<close>

datatype console_line =
    ModeLine run_mode
  | Trying string string
  | HttpStatus "int option" string
  | NoBody
  | BozoEntries bool nat
  | BozoException string
  | SnippetHeader
  | Snippet string
  | Fetched nat string
  | NoHeadlines
  | Saved nat string string
  | TopHeader
  | TopBlock nat row

text \<open>
  What happens to a file: \<open>Wrote name rows\<close> when the table of \<open>rows\<close> has been
  written to it; \<open>WriteFailed name rows\<close> when writing that table raised, which leaves
  the file in an unspecified state.
\<close>

datatype file_event = Wrote string "row list" | WriteFailed string "row list"

fun event_rows :: "file_event \<Rightarrow> row list" where
  "event_rows (Wrote name rows) = rows"
| "event_rows (WriteFailed name rows) = rows"

text \<open>
  The effects of a run, each in order: the lines printed, the URLs requested and what
  happened to the files. \<open>dedupe_calls\<close> is a trace the program does not have: the
  arguments of the calls of \<open>dedupe\<close> that \<open>main\<close> makes, kept to state how often and on
  what \<open>main\<close> calls it.
\<close>

record world =
  console :: "console_line list"
  requested :: "string list"
  written :: "file_event list"
  dedupe_calls :: "row list list"

definition world0 :: world where
  "world0 = \<lparr>console = [], requested = [], written = [], dedupe_calls = []\<rparr>"

text \<open>
  The exceptions that end a run: the \<open>TypeError\<close> of a sort whose keys cannot be
  ordered, and whatever building or writing the table raises, kept as its message.
\<close>

datatype py_error = TypeError | WriterError string

definition print_line :: "console_line \<Rightarrow> world \<Rightarrow> world" where
  "print_line l w = w\<lparr>console := console w @ [l]\<rparr>"

section \<open>Configuration (lines 18--34)\<close>

definition FEEDS :: "(string \<times> string list) list" where
  "FEEDS =
     [(''TechCrunch'', [''https://techcrunch.com/feed/'']),
      (''Economic Times - Top Stories'',
       [''https://b2b.economictimes.indiatimes.com/rss/topstories'',
        ''https://economictimes.indiatimes.com/feeds/newsdefault.cms'',
        ''https://economictimes.indiatimes.com/rssfeedsdefault.cms'',
        ''https://economictimes.indiatimes.com/defaultinterstitial.cms''])]"

definition HEADLINES_PER_SOURCE :: int where
  "HEADLINES_PER_SOURCE = 4"

definition CSV_OUT :: string where
  "CSV_OUT = ''news_headlines.csv''"

definition XLSX_OUT :: string where
  "XLSX_OUT = ''news_headlines.xlsx''"

definition MAX_PER_SOURCE_FOR_GLOBAL :: int where
  "MAX_PER_SOURCE_FOR_GLOBAL = 12"

definition TOTAL_GLOBAL_TOP :: int where
  "TOTAL_GLOBAL_TOP = 4"

text \<open>
  \<open>str.lower()\<close> on the code points below 256: the letters \<open>A\<close>--\<open>Z\<close> and the
  capital letters of Latin-1 (192--222 without the multiplication sign 215) move up
  by 32.
\<close>

definition lower_char :: "char \<Rightarrow> char" where
  "lower_char c =
     (let n = (of_char c :: nat) in
      if (65 \<le> n \<and> n \<le> 90) \<or> (192 \<le> n \<and> n \<le> 222 \<and> n \<noteq> 215) then char_of (n + 32) else c)"

definition lower :: "string \<Rightarrow> string" where
  "lower s = map lower_char s"

text \<open>
  Line 32, with \<open>sys.argv\<close> as argument:
  \<^verbatim>\<open>MODE = "per_source" if not (len(sys.argv) > 1 and sys.argv[1].lower() in ("global","global_top")) else "global_top"\<close>
\<close>

definition MODE :: "string list \<Rightarrow> run_mode" where
  "MODE argv =
     (if \<not> (length argv > 1 \<and> lower (argv ! 1) \<in> {''global'', ''global_top''})
      then per_source else global_top)"

section \<open>fetch\_feed\_text (lines 43--49)\<close>

text \<open>
  Returns the tuple \<open>(status_code, text, content_type)\<close>; when \<open>requests.get\<close> raises,
  the \<open>except Exception\<close> clause returns \<open>(None, None, "error: ...")\<close>. The request is
  recorded in the world either way.
\<close>

definition fetch_feed_text ::
  "env \<Rightarrow> string \<Rightarrow> world \<Rightarrow> (int option \<times> string option \<times> string) \<times> world" where
  "fetch_feed_text env url w =
     (let w' = w\<lparr>requested := requested w @ [url]\<rparr> in
      case requests_get env (requested w) url of
        Inr r \<Rightarrow>
          ((Some (status_code r), Some (body_text r),
            (case content_type r of None \<Rightarrow> [] | Some c \<Rightarrow> c)), w')
      | Inl e \<Rightarrow> ((None, None, ''error: '' @ e), w'))"

section \<open>parse\_with\_feedparser\_from\_text (lines 51--53)\<close>

definition parse_with_feedparser_from_text :: "env \<Rightarrow> string \<Rightarrow> parsed" where
  "parse_with_feedparser_from_text env txt = feedparser_parse env txt"

section \<open>try\_feed\_urls (lines 55--109)\<close>

text \<open>\<open>getattr(e, name, "")\<close> for a string attribute.\<close>

definition getattr_str :: "string option \<Rightarrow> string" where
  "getattr_str a = (case a of None \<Rightarrow> [] | Some s \<Rightarrow> s)"

text \<open>
  The body of the loop over the entries (lines 84--106): the row built from one
  entry. When \<open>published_parsed\<close> is truthy (a non-empty tuple) the timestamp is
  \<open>datetime(*e.published_parsed[:6])\<close>, \<open>None\<close> if that raises; otherwise it is
  \<open>dateutil_parser.parse(published)\<close> when \<open>published\<close> is not empty, \<open>None\<close> if that
  raises or \<open>published\<close> is empty.
\<close>

definition entry_row :: "env \<Rightarrow> string \<Rightarrow> raw_entry \<Rightarrow> row" where
  "entry_row env debug_name e =
     (let ttl = strip (getattr_str (e_title e));
          lnk = strip (getattr_str (e_link e));
          pub = py_or (getattr_str (e_published e)) (getattr_str (e_updated e));
          textual = (if pub \<noteq> [] then dateutil_parse env pub else None);
          pub_dt =
            (case e_published_parsed e of
               None \<Rightarrow> textual
             | Some t \<Rightarrow>
                 if t \<noteq> [] then map_option Naive (datetime_ctor env (take 6 t)) else textual)
      in \<lparr>source = debug_name, title = ttl, link = lnk, published = pub,
          published_dt = pub_dt\<rparr>)"

text \<open>Line 76: \<^verbatim>\<open>text.strip()[:800].replace("\n", " ")\<close>.\<close>

definition snippet :: "string \<Rightarrow> string" where
  "snippet body = map (\<lambda>c. if c = CHR 0x0A then CHR '' '' else c) (take 800 (strip body))"

text \<open>
  The loop over \<open>url_list\<close>. \<open>rows\<close> is still empty whenever an iteration starts, and
  the iteration that appends to it ends with \<open>break\<close>, so the function returns the
  rows of that iteration, or the empty list when the loop runs out of URLs.
\<close>

fun try_feed_urls :: "env \<Rightarrow> string list \<Rightarrow> int \<Rightarrow> string \<Rightarrow> world \<Rightarrow> row list \<times> world" where
  "try_feed_urls env [] max_items debug_name w = ([], w)"
| "try_feed_urls env (url # url_list) max_items debug_name w =
     (let w1 = print_line (Trying debug_name url) w;
          ((status, body, ctype), w2) = fetch_feed_text env url w1;
          w3 = print_line (HttpStatus status (take 80 ctype)) w2
      in case body of
           None \<Rightarrow> try_feed_urls env url_list max_items debug_name (print_line NoBody w3)
         | Some txt \<Rightarrow>
             if txt = [] then
               try_feed_urls env url_list max_items debug_name (print_line NoBody w3)
             else
               let p = parse_with_feedparser_from_text env txt;
                   w4 = print_line (BozoEntries (bozo p) (length (entries p))) w3;
                   w5 = (if bozo p then print_line (BozoException (bozo_exception p)) w4 else w4)
               in if length (entries p) = 0 then
                    try_feed_urls env url_list max_items debug_name
                      (print_line (Snippet (snippet txt)) (print_line SnippetHeader w5))
                  else
                    (map (entry_row env debug_name) (py_slice_to (entries p) max_items), w5))"

section \<open>save (lines 124--135)\<close>

text \<open>
  Builds the table from the rows, writes it to \<open>CSV_OUT\<close>, then to \<open>XLSX_OUT\<close>, and
  returns the table. The table is kept as the rows it is built from: its columns and
  their rendering are pandas'. Nothing in \<open>save\<close> catches an exception: when building
  the table or writing the CSV raises, the spreadsheet is not attempted; when writing
  the spreadsheet raises, the CSV has been written.
\<close>

definition save :: "env \<Rightarrow> row list \<Rightarrow> world \<Rightarrow> (py_error + row list) \<times> world" where
  "save env rows w =
     (case to_csv env CSV_OUT rows of
        Some msg \<Rightarrow>
          (Inl (WriterError msg), w\<lparr>written := written w @ [WriteFailed CSV_OUT rows]\<rparr>)
      | None \<Rightarrow>
          (case to_excel env XLSX_OUT rows of
             Some msg \<Rightarrow>
               (Inl (WriterError msg),
                w\<lparr>written := written w @ [Wrote CSV_OUT rows, WriteFailed XLSX_OUT rows]\<rparr>)
           | None \<Rightarrow>
               (Inr rows, w\<lparr>written := written w @ [Wrote CSV_OUT rows, Wrote XLSX_OUT rows]\<rparr>)))"

section \<open>main (lines 138--172)\<close>

text \<open>
  The loop over \<open>FEEDS.items()\<close> (lines 142--145 and 148--151), with \<open>all_rows\<close> as
  accumulator.
\<close>

fun fetch_sources ::
  "env \<Rightarrow> (string \<times> string list) list \<Rightarrow> int \<Rightarrow> row list \<Rightarrow> world \<Rightarrow> row list \<times> world" where
  "fetch_sources env [] max_items all_rows w = (all_rows, w)"
| "fetch_sources env ((source_name, urls) # feeds) max_items all_rows w =
     (let (rows, w1) = try_feed_urls env urls max_items source_name w;
          w2 = print_line (Fetched (length rows) source_name) w1
      in fetch_sources env feeds max_items (all_rows @ rows) w2)"

text \<open>
  \<open>a < b\<close> on two keys evaluates without \<open>TypeError\<close> exactly when both are \<open>datetime\<close>
  values and both are naive or both are aware.
\<close>

fun comparable :: "datetime option \<Rightarrow> datetime option \<Rightarrow> bool" where
  "comparable (Some a) (Some b) = (is_aware a = is_aware b)"
| "comparable a b = False"

text \<open>
  The position of a key on its time line. The value given to \<open>None\<close> is never
  compared: sorting two or more elements with a \<open>None\<close> key raises, and a list of at
  most one element is returned as it is.
\<close>

fun key_pos :: "datetime option \<Rightarrow> int" where
  "key_pos (Some d) = instant d"
| "key_pos None = 0"

text \<open>
  \<open>xs.sort(key=key, reverse=True)\<close> for keys that are \<open>datetime\<close> values or \<open>None\<close>.
  The sort is stable and descending: elements with equal keys keep their order.
  Sorting two or more elements compares each of them with another one, along
  comparisons that connect them all, so the sort raises \<open>TypeError\<close> as soon as two of
  the keys cannot be ordered; a list of at most one element is never compared.
\<close>

definition py_sort_reverse :: "('a \<Rightarrow> datetime option) \<Rightarrow> 'a list \<Rightarrow> py_error + 'a list" where
  "py_sort_reverse key xs =
     (let ks = map key xs in
      if length ks \<le> 1 \<or> list_all (\<lambda>a. list_all (comparable a) ks) ks
      then Inr (rev (sort_key (\<lambda>x. key_pos (key x)) (rev xs)))
      else Inl TypeError)"

text \<open>
  Lines 139--155 of \<open>main\<close>, reading the global \<open>MODE\<close> computed from \<open>argv\<close>: prints
  the mode and gathers \<open>all_rows\<close>; in \<open>global_top\<close> mode \<open>all_rows\<close> is then filtered to
  the rows with a timestamp, sorted by it in descending order and cut to its first
  \<open>TOTAL_GLOBAL_TOP\<close> rows. The result is \<open>Inl\<close> when the sort raises.
\<close>

definition collect_rows :: "env \<Rightarrow> string list \<Rightarrow> world \<Rightarrow> (py_error + row list) \<times> world" where
  "collect_rows env argv w =
     (let w1 = print_line (ModeLine (MODE argv)) w in
      if MODE argv = per_source then
        (let (all_rows, w2) = fetch_sources env FEEDS HEADLINES_PER_SOURCE [] w1
         in (Inr all_rows, w2))
      else
        (let (all_rows, w2) = fetch_sources env FEEDS MAX_PER_SOURCE_FOR_GLOBAL [] w1;
             dated = filter (\<lambda>r. published_dt r \<noteq> None) all_rows
         in case py_sort_reverse published_dt dated of
              Inl err \<Rightarrow> (Inl err, w2)
            | Inr sorted_rows \<Rightarrow> (Inr (py_slice_to sorted_rows TOTAL_GLOBAL_TOP), w2)))"

text \<open>
  \<open>main\<close>: lines 139--155 as above, then lines 157--172. The result is \<open>Inl\<close> when the
  run ends with an exception that nothing catches, \<open>Inr ()\<close> when \<open>main\<close> returns.
\<close>

definition main :: "env \<Rightarrow> string list \<Rightarrow> world \<Rightarrow> (py_error + unit) \<times> world" where
  "main env argv w =
     (let (collected, w2) = collect_rows env argv w in
      case collected of
        Inl err \<Rightarrow> (Inl err, w2)
      | Inr all_rows \<Rightarrow>
          let w3 = w2\<lparr>dedupe_calls := dedupe_calls w2 @ [all_rows]\<rparr>;
              final_rows = dedupe all_rows
          in if final_rows = [] then (Inr (), print_line NoHeadlines w3)
             else
               let (saved, w4) = save env final_rows w3 in
               case saved of
                 Inl err \<Rightarrow> (Inl err, w4)
               | Inr df \<Rightarrow>
                   let w5 = print_line (Saved (length df) CSV_OUT XLSX_OUT) w4;
                       w6 = print_line TopHeader w5;
                       top = take 2 df
                   in (Inr (),
                       foldl (\<lambda>w (i, r). print_line (TopBlock i r) w) w6
                         (zip [1..<Suc (length top)] top)))"

section \<open>Vocabulary for the pipeline\<close>

text \<open>
  What happens to the files, and the calls of \<open>dedupe\<close>, between two states of the
  world.
\<close>

definition new_files :: "world \<Rightarrow> world \<Rightarrow> file_event list" where
  "new_files w w' = drop (length (written w)) (written w')"

definition new_calls :: "world \<Rightarrow> world \<Rightarrow> row list list" where
  "new_calls w w' = drop (length (dedupe_calls w)) (dedupe_calls w')"

text \<open>
  What a run does with a final list of rows: nothing when it is empty, else what
  \<open>save\<close> does with it. \<open>files_of\<close> are the file events, \<open>outcome_of\<close> is how the run
  ends.
\<close>

definition files_of :: "env \<Rightarrow> row list \<Rightarrow> file_event list" where
  "files_of env rows = (if rows = [] then [] else written (snd (save env rows world0)))"

definition outcome_of :: "env \<Rightarrow> row list \<Rightarrow> py_error + unit" where
  "outcome_of env rows =
     (if rows = [] then Inr ()
      else case fst (save env rows world0) of Inl err \<Rightarrow> Inl err | Inr df \<Rightarrow> Inr ())"

text \<open>
  The per-source batches: the lists the successive calls of \<open>try_feed_urls\<close> in the
  loop over \<open>FEEDS\<close> return.
\<close>

fun source_batches ::
  "env \<Rightarrow> (string \<times> string list) list \<Rightarrow> int \<Rightarrow> world \<Rightarrow> row list list" where
  "source_batches env [] max_items w = []"
| "source_batches env ((source_name, urls) # feeds) max_items w =
     (let (rows, w1) = try_feed_urls env urls max_items source_name w;
          w2 = print_line (Fetched (length rows) source_name) w1
      in rows # source_batches env feeds max_items w2)"

text \<open>\<open>a >= b\<close> holds in Python: the two values can be ordered and \<open>b\<close> is not later.\<close>

fun dt_ge :: "datetime option \<Rightarrow> datetime option \<Rightarrow> bool" where
  "dt_ge (Some a) (Some b) = (is_aware a = is_aware b \<and> instant b \<le> instant a)"
| "dt_ge a b = False"

text \<open>
  The Selector and the pipeline as the specification words them: the Deduplicator
  runs on the concatenation of the batches, then the Selector applies the mode's
  policy (identity in \<open>PerSource\<close> mode; in \<open>GlobalTop\<close> mode discard the undated
  records, sort the rest descending by timestamp, truncate to the global limit).
\<close>

definition spec_selector :: "run_mode \<Rightarrow> row list \<Rightarrow> py_error + row list" where
  "spec_selector m rows =
     (case m of
        per_source \<Rightarrow> Inr rows
      | global_top \<Rightarrow>
          (case py_sort_reverse published_dt (filter (\<lambda>r. published_dt r \<noteq> None) rows) of
             Inl err \<Rightarrow> Inl err
           | Inr sorted_rows \<Rightarrow> Inr (py_slice_to sorted_rows TOTAL_GLOBAL_TOP)))"

definition spec_pipeline :: "env \<Rightarrow> string list \<Rightarrow> world \<Rightarrow> py_error + row list" where
  "spec_pipeline env argv w =
     spec_selector (MODE argv)
       (dedupe (concat (source_batches env FEEDS
          (if MODE argv = per_source then HEADLINES_PER_SOURCE else MAX_PER_SOURCE_FOR_GLOBAL)
          (print_line (ModeLine (MODE argv)) w))))"

section \<open>The Deduplicator as the specification words it\<close>

text \<open>
  The key as the specification words it: the link if it is not empty, else the
  title.
\<close>

definition spec_key :: "row \<Rightarrow> string" where
  "spec_key r = (if link r \<noteq> [] then link r else title r)"

text \<open>
  The Deduplicator as the specification words it: a record with both link and title
  empty is dropped; of the others, the first occurrence of each \<open>spec_key\<close> is kept, in
  order.
\<close>

fun spec_dedupe_loop :: "row list \<Rightarrow> string set \<Rightarrow> row list" where
  "spec_dedupe_loop [] seen = []"
| "spec_dedupe_loop (r # rows) seen =
     (if link r = [] \<and> title r = [] then spec_dedupe_loop rows seen
      else if spec_key r \<in> seen then spec_dedupe_loop rows seen
      else r # spec_dedupe_loop rows (insert (spec_key r) seen))"

definition spec_dedupe :: "row list \<Rightarrow> row list" where
  "spec_dedupe rows = spec_dedupe_loop rows {}"

section \<open>Vocabulary for the Source Resolver\<close>

text \<open>The body a fetch carries: none when the request failed at transport.\<close>

definition body_of :: "string + response \<Rightarrow> string option" where
  "body_of res = (case res of Inl e \<Rightarrow> None | Inr r \<Rightarrow> Some (body_text r))"

text \<open>
  The entries one attempt on \<open>url\<close> yields when \<open>hist\<close> are the URLs requested
  before it: none when the request fails at transport, none when the body is empty,
  else the entries the parser finds in the body.
\<close>

definition url_entries :: "env \<Rightarrow> string list \<Rightarrow> string \<Rightarrow> raw_entry list" where
  "url_entries env hist url =
     (case requests_get env hist url of
        Inl e \<Rightarrow> []
      | Inr r \<Rightarrow> if body_text r = [] then [] else entries (feedparser_parse env (body_text r)))"

section \<open>Example inputs\<close>

definition mk_row :: "string \<Rightarrow> string \<Rightarrow> row" where
  "mk_row t l = \<lparr>source = ''TechCrunch'', title = t, link = l, published = [], published_dt = None\<rparr>"

definition dup_rows :: "row list" where
  "dup_rows =
     [mk_row ''A'' ''https://x/y'', mk_row ''B'' [], mk_row ''C'' ''https://x/y'',
      mk_row [] [], mk_row ''B'' []]"

definition blank_link_row :: row where
  "blank_link_row = mk_row ''Budget 2024'' '' ''"

text \<open>
  A feed entry with title, link, published text and parsed date, and an environment
  in which one URL answers with a feed of given entries while every other request
  times out. Its \<open>datetime\<close> constructor accepts six fields and places them on the time
  line in their order of significance; its writers succeed.
\<close>

definition mk_entry :: "string \<Rightarrow> string \<Rightarrow> int list \<Rightarrow> raw_entry" where
  "mk_entry t l tm =
     \<lparr>e_title = Some t, e_link = Some l, e_published = Some ''Mon, 01 Jan 2024'',
      e_updated = None, e_published_parsed = Some tm\<rparr>"

definition six_fields :: "int list \<Rightarrow> int option" where
  "six_fields args =
     (case args of
        [y, mo, d, h, mi, s] \<Rightarrow> Some (((((y * 12 + mo) * 31 + d) * 24 + h) * 60 + mi) * 60 + s)
      | _ \<Rightarrow> None)"

definition stub_env :: "string \<Rightarrow> raw_entry list \<Rightarrow> env" where
  "stub_env good_url es =
     \<lparr>requests_get = (\<lambda>hist url.
        if url = good_url
        then Inr \<lparr>status_code = 200, body_text = ''<rss>'',
                  content_type = Some ''application/rss+xml''\<rparr>
        else Inl ''timed out''),
      feedparser_parse = (\<lambda>txt.
        if txt = ''<rss>'' then \<lparr>bozo = False, bozo_exception = [], entries = es\<rparr>
        else \<lparr>bozo = True, bozo_exception = ''not a feed'', entries = []\<rparr>),
      datetime_ctor = six_fields,
      dateutil_parse = (\<lambda>s. None),
      to_csv = (\<lambda>name rows. None),
      to_excel = (\<lambda>name rows. None)\<rparr>"

definition three_entries :: "raw_entry list" where
  "three_entries =
     [mk_entry '' T1 '' ''https://a/1'' [2024, 1, 1, 10, 0, 0, 0, 1, 0],
      mk_entry ''T2'' ''https://a/2'' [2024, 1, 1, 9, 0, 0, 0, 1, 0],
      mk_entry ''T3'' ''https://a/3'' [2024, 1, 1, 8, 0, 0, 0, 1, 0]]"

text \<open>
  The same feed served with an error status and another content type, the other
  requests failing with another message.
\<close>

definition error_status_get :: "string list \<Rightarrow> string \<Rightarrow> string + response" where
  "error_status_get hist url =
     (if url = ''U2''
      then Inr \<lparr>status_code = 503, body_text = ''<rss>'', content_type = Some ''text/html''\<rparr>
      else Inl ''connection refused'')"

text \<open>
  An environment in which \<open>U1\<close> fails at transport, \<open>U2\<close> answers with an empty body
  and every other URL answers with a page in which the parser finds no entry.
\<close>

definition failing_env :: env where
  "failing_env =
     \<lparr>requests_get = (\<lambda>hist url.
        if url = ''U1'' then Inl ''timed out''
        else if url = ''U2'' then Inr \<lparr>status_code = 200, body_text = [], content_type = None\<rparr>
        else Inr \<lparr>status_code = 404, body_text = ''<html>'', content_type = Some ''text/html''\<rparr>),
      feedparser_parse = (\<lambda>txt. \<lparr>bozo = True, bozo_exception = ''not a feed'', entries = []\<rparr>),
      datetime_ctor = six_fields,
      dateutil_parse = (\<lambda>s. None),
      to_csv = (\<lambda>name rows. None),
      to_excel = (\<lambda>name rows. None)\<rparr>"

text \<open>
  A TechCrunch feed of five dated entries, not in order of date, two of them with
  the same link; every Economic Times URL times out.
\<close>

definition five_entries :: "raw_entry list" where
  "five_entries =
     [mk_entry ''C'' ''https://t/3'' [2024, 1, 1, 8, 0, 0, 0, 1, 0],
      mk_entry ''A'' ''https://t/1'' [2024, 1, 1, 10, 0, 0, 0, 1, 0],
      mk_entry ''E'' ''https://t/5'' [2024, 1, 1, 6, 0, 0, 0, 1, 0],
      mk_entry ''A again'' ''https://t/1'' [2024, 1, 1, 9, 0, 0, 0, 1, 0],
      mk_entry ''D'' ''https://t/4'' [2024, 1, 1, 7, 0, 0, 0, 1, 0]]"

definition dup_env :: env where
  "dup_env = stub_env ''https://techcrunch.com/feed/'' five_entries"

definition dated_row :: "string \<Rightarrow> string \<Rightarrow> int \<Rightarrow> row" where
  "dated_row t l h =
     \<lparr>source = ''TechCrunch'', title = t, link = l, published = ''Mon, 01 Jan 2024'',
      published_dt = map_option Naive (six_fields [2024, 1, 1, h, 0, 0])\<rparr>"

text \<open>
  Entries with missing attributes, and an environment whose textual date parser
  reads one string, as an aware timestamp.
\<close>

definition textual_env :: env where
  "textual_env =
     (stub_env ''U2'' three_entries)
       \<lparr>dateutil_parse := (\<lambda>s. if s = ''2024-01-02T03:04:05Z'' then Some (Aware 1704164645) else None)\<rparr>"

definition entry_updated_only :: raw_entry where
  "entry_updated_only =
     \<lparr>e_title = None, e_link = Some ''https://a/9 '', e_published = None,
      e_updated = Some ''2024-01-02T03:04:05Z'', e_published_parsed = None\<rparr>"

definition entry_bad_tuple :: raw_entry where
  "entry_bad_tuple =
     \<lparr>e_title = Some ''T'', e_link = None, e_published = Some ''2024-01-02T03:04:05Z'',
      e_updated = None, e_published_parsed = Some [2024, 1]\<rparr>"

definition entry_bare :: raw_entry where
  "entry_bare =
     \<lparr>e_title = None, e_link = None, e_published = Some [], e_updated = None,
      e_published_parsed = Some []\<rparr>"

text \<open>
  A TechCrunch feed of two entries, one with a parsed date (a naive timestamp) and one
  whose published text the textual parser reads as an aware timestamp; and the
  environment of the five entries with a spreadsheet writer that raises.
\<close>

definition mixed_entries :: "raw_entry list" where
  "mixed_entries =
     [mk_entry ''N'' ''https://t/1'' [2024, 1, 1, 10, 0, 0, 0, 1, 0],
      \<lparr>e_title = Some ''W'', e_link = Some ''https://t/2'',
       e_published = Some ''2024-01-02T03:04:05Z'', e_updated = None,
       e_published_parsed = None\<rparr>]"

definition mixed_env :: env where
  "mixed_env =
     (stub_env ''https://techcrunch.com/feed/'' mixed_entries)
       \<lparr>dateutil_parse := (\<lambda>s. if s = ''2024-01-02T03:04:05Z'' then Some (Aware 1704164645) else None)\<rparr>"

definition excel_fails_env :: env where
  "excel_fails_env = dup_env\<lparr>to_excel := (\<lambda>name rows. Some ''IllegalCharacterError'')\<rparr>"

section \<open>Properties of dedupe\<close>

lemma dedupe_loop_out: "dedupe_loop rows seen out = out @ dedupe_loop rows seen []"
proof (induction rows arbitrary: seen out)
  case Nil
  show ?case by simp
next
  case (Cons r rows)
  have step: "dedupe_loop rows (insert (dedupe_key r) seen) (out @ [r]) =
      out @ dedupe_loop rows (insert (dedupe_key r) seen) [r]"
    using Cons.IH [of "insert (dedupe_key r) seen" "out @ [r]"]
      Cons.IH [of "insert (dedupe_key r) seen" "[r]"] by simp
  show ?case
    using Cons.IH [of seen out] step by (simp add: Let_def)
qed

lemma dedupe_loop_Cons:
  "dedupe_loop (r # rows) seen [] =
     (if dedupe_key r = [] \<or> dedupe_key r \<in> seen then dedupe_loop rows seen []
      else r # dedupe_loop rows (insert (dedupe_key r) seen) [])"
  using dedupe_loop_out [of rows "insert (dedupe_key r) seen" "[r]"]
  by (simp add: Let_def)

lemma dedupe_loop_fixed:
  "\<forall>r \<in> set xs. dedupe_key r \<noteq> [] \<and> dedupe_key r \<notin> seen \<Longrightarrow>
   distinct (map dedupe_key xs) \<Longrightarrow> dedupe_loop xs seen [] = xs"
proof (induction xs arbitrary: seen)
  case Nil
  show ?case by simp
next
  case (Cons x xs)
  have "\<forall>r \<in> set xs. dedupe_key r \<noteq> [] \<and> dedupe_key r \<notin> insert (dedupe_key x) seen"
    using Cons.prems by (auto simp: image_iff)
  moreover have "distinct (map dedupe_key xs)"
    using Cons.prems by simp
  ultimately have "dedupe_loop xs (insert (dedupe_key x) seen) [] = xs"
    by (rule Cons.IH)
  moreover have "dedupe_key x \<noteq> [] \<and> dedupe_key x \<notin> seen"
    using Cons.prems by simp
  ultimately show ?case
    by (simp add: dedupe_loop_Cons del: dedupe_loop.simps(2))
qed

lemma dedupe_loop_keys:
  "r \<in> set (dedupe_loop rows seen []) \<Longrightarrow> dedupe_key r \<noteq> [] \<and> dedupe_key r \<notin> seen"
proof (induction rows arbitrary: seen)
  case Nil
  then show ?case by simp
next
  case (Cons x rows)
  show ?case
  proof (cases "dedupe_key x = [] \<or> dedupe_key x \<in> seen")
    case True
    then have "r \<in> set (dedupe_loop rows seen [])"
      using Cons.prems by (simp add: dedupe_loop_Cons del: dedupe_loop.simps(2))
    then show ?thesis by (rule Cons.IH)
  next
    case False
    then have "r = x \<or> r \<in> set (dedupe_loop rows (insert (dedupe_key x) seen) [])"
      using Cons.prems by (simp add: dedupe_loop_Cons del: dedupe_loop.simps(2))
    then show ?thesis
    proof
      assume "r = x"
      then show ?thesis using False by simp
    next
      assume "r \<in> set (dedupe_loop rows (insert (dedupe_key x) seen) [])"
      then have "dedupe_key r \<noteq> [] \<and> dedupe_key r \<notin> insert (dedupe_key x) seen"
        by (rule Cons.IH)
      then show ?thesis by simp
    qed
  qed
qed

lemma dedupe_loop_distinct: "distinct (map dedupe_key (dedupe_loop rows seen []))"
proof (induction rows arbitrary: seen)
  case Nil
  show ?case by simp
next
  case (Cons x rows)
  have "dedupe_key x \<notin> dedupe_key ` set (dedupe_loop rows (insert (dedupe_key x) seen) [])"
  proof
    assume "dedupe_key x \<in> dedupe_key ` set (dedupe_loop rows (insert (dedupe_key x) seen) [])"
    then obtain y where y: "y \<in> set (dedupe_loop rows (insert (dedupe_key x) seen) [])"
      and eq: "dedupe_key x = dedupe_key y" by blast
    from y have "dedupe_key y \<notin> insert (dedupe_key x) seen"
      using dedupe_loop_keys by blast
    with eq show False by simp
  qed
  then show ?case
    using Cons.IH by (simp add: dedupe_loop_Cons del: dedupe_loop.simps(2))
qed

lemma dedupe_loop_append:
  "dedupe_loop (xs @ ys) seen out =
     dedupe_loop ys (seen \<union> (dedupe_key ` set xs - {[]})) (dedupe_loop xs seen out)"
proof (induction xs arbitrary: seen out)
  case Nil
  show ?case by simp
next
  case (Cons x xs)
  show ?case
  proof (cases "dedupe_key x = [] \<or> dedupe_key x \<in> seen")
    case True
    have sets: "seen \<union> (dedupe_key ` set (x # xs) - {[]}) =
        seen \<union> (dedupe_key ` set xs - {[]})"
      using True by auto
    have "dedupe_loop ((x # xs) @ ys) seen out = dedupe_loop (xs @ ys) seen out"
      using True by (auto simp: Let_def)
    also have "\<dots> = dedupe_loop ys (seen \<union> (dedupe_key ` set xs - {[]})) (dedupe_loop xs seen out)"
      by (rule Cons.IH)
    also have "dedupe_loop xs seen out = dedupe_loop (x # xs) seen out"
      using True by (auto simp: Let_def)
    finally show ?thesis
      unfolding sets .
  next
    case False
    have sets: "seen \<union> (dedupe_key ` set (x # xs) - {[]}) =
        insert (dedupe_key x) seen \<union> (dedupe_key ` set xs - {[]})"
      using False by auto
    have "dedupe_loop ((x # xs) @ ys) seen out =
        dedupe_loop (xs @ ys) (insert (dedupe_key x) seen) (out @ [x])"
      using False by (simp add: Let_def)
    also have "\<dots> = dedupe_loop ys (insert (dedupe_key x) seen \<union> (dedupe_key ` set xs - {[]}))
        (dedupe_loop xs (insert (dedupe_key x) seen) (out @ [x]))"
      by (rule Cons.IH)
    also have "dedupe_loop xs (insert (dedupe_key x) seen) (out @ [x]) = dedupe_loop (x # xs) seen out"
      using False by (simp add: Let_def)
    finally show ?thesis
      unfolding sets .
  qed
qed

lemma dedupe_loop_subseq: "subseq (dedupe_loop rows seen []) rows"
proof (induction rows arbitrary: seen)
  case Nil
  show ?case by simp
next
  case (Cons x rows)
  show ?case
  proof (cases "dedupe_key x = [] \<or> dedupe_key x \<in> seen")
    case True
    have "subseq (dedupe_loop rows seen []) (x # rows)"
      using Cons.IH [of seen] by (rule list_emb_Cons)
    then show ?thesis using True by (simp add: dedupe_loop_Cons del: dedupe_loop.simps(2))
  next
    case False
    have "subseq (x # dedupe_loop rows (insert (dedupe_key x) seen) []) (x # rows)"
      using Cons.IH [of "insert (dedupe_key x) seen"] by simp
    then show ?thesis using False by (simp add: dedupe_loop_Cons del: dedupe_loop.simps(2))
  qed
qed

lemma dedupe_loop_first:
  "r \<in> set (dedupe_loop rows seen []) \<Longrightarrow>
   List.find (\<lambda>x. dedupe_key x = dedupe_key r) rows = Some r"
proof (induction rows arbitrary: seen)
  case Nil
  then show ?case by simp
next
  case (Cons x rows)
  have k: "dedupe_key r \<noteq> [] \<and> dedupe_key r \<notin> seen"
    using Cons.prems by (rule dedupe_loop_keys)
  show ?case
  proof (cases "dedupe_key x = [] \<or> dedupe_key x \<in> seen")
    case True
    then have "r \<in> set (dedupe_loop rows seen [])"
      using Cons.prems by (simp add: dedupe_loop_Cons del: dedupe_loop.simps(2))
    then have "List.find (\<lambda>x. dedupe_key x = dedupe_key r) rows = Some r"
      by (rule Cons.IH)
    moreover have "dedupe_key x \<noteq> dedupe_key r" using True k by auto
    ultimately show ?thesis by simp
  next
    case False
    then have "r = x \<or> r \<in> set (dedupe_loop rows (insert (dedupe_key x) seen) [])"
      using Cons.prems by (simp add: dedupe_loop_Cons del: dedupe_loop.simps(2))
    then show ?thesis
    proof
      assume "r = x"
      then show ?thesis by simp
    next
      assume in_rest: "r \<in> set (dedupe_loop rows (insert (dedupe_key x) seen) [])"
      then have "List.find (\<lambda>x. dedupe_key x = dedupe_key r) rows = Some r"
        by (rule Cons.IH)
      moreover have "dedupe_key x \<noteq> dedupe_key r"
        using dedupe_loop_keys [OF in_rest] by auto
      ultimately show ?thesis by simp
    qed
  qed
qed

lemma dedupe_loop_covers:
  "r \<in> set rows \<Longrightarrow> dedupe_key r \<noteq> [] \<Longrightarrow> dedupe_key r \<notin> seen \<Longrightarrow>
   dedupe_key r \<in> dedupe_key ` set (dedupe_loop rows seen [])"
proof (induction rows arbitrary: seen)
  case Nil
  then show ?case by simp
next
  case (Cons x rows)
  show ?case
  proof (cases "dedupe_key x = [] \<or> dedupe_key x \<in> seen")
    case True
    then have "r \<noteq> x" using Cons.prems by auto
    then have "r \<in> set rows" using Cons.prems by simp
    then have "dedupe_key r \<in> dedupe_key ` set (dedupe_loop rows seen [])"
      using Cons.prems by (intro Cons.IH)
    then show ?thesis using True by (simp add: dedupe_loop_Cons del: dedupe_loop.simps(2))
  next
    case False
    show ?thesis
    proof (cases "dedupe_key r = dedupe_key x")
      case True
      then show ?thesis using False by (simp add: dedupe_loop_Cons del: dedupe_loop.simps(2))
    next
      case ne: False
      then have "r \<in> set rows" using Cons.prems by auto
      then have "dedupe_key r \<in> dedupe_key ` set (dedupe_loop rows (insert (dedupe_key x) seen) [])"
        using Cons.prems ne by (intro Cons.IH) auto
      then show ?thesis using False by (simp add: dedupe_loop_Cons del: dedupe_loop.simps(2))
    qed
  qed
qed

lemma dedupe_member_iff:
  "r \<in> set (dedupe rows) \<longleftrightarrow>
     dedupe_key r \<noteq> [] \<and> List.find (\<lambda>x. dedupe_key x = dedupe_key r) rows = Some r"
proof
  assume "r \<in> set (dedupe rows)"
  then have m: "r \<in> set (dedupe_loop rows {} [])" by (simp add: dedupe_def)
  show "dedupe_key r \<noteq> [] \<and> List.find (\<lambda>x. dedupe_key x = dedupe_key r) rows = Some r"
    using dedupe_loop_keys [OF m] dedupe_loop_first [OF m] by simp
next
  assume a: "dedupe_key r \<noteq> [] \<and> List.find (\<lambda>x. dedupe_key x = dedupe_key r) rows = Some r"
  then have "r \<in> set rows" by (auto simp: find_Some_iff)
  then have "dedupe_key r \<in> dedupe_key ` set (dedupe_loop rows {} [])"
    using a by (intro dedupe_loop_covers) auto
  then obtain y where y: "y \<in> set (dedupe_loop rows {} [])" and eq: "dedupe_key r = dedupe_key y"
    by blast
  have "List.find (\<lambda>x. dedupe_key x = dedupe_key y) rows = Some y"
    using y by (rule dedupe_loop_first)
  then have "y = r" using a eq by simp
  then show "r \<in> set (dedupe rows)" using y by (simp add: dedupe_def)
qed

lemma dedupe_snoc:
  "dedupe (rows @ [r]) =
     (if dedupe_key r = [] \<or> dedupe_key r \<in> dedupe_key ` set rows then dedupe rows
      else dedupe rows @ [r])"
  unfolding dedupe_def dedupe_loop_append [of rows "[r]" "{}" "[]"]
  by (auto simp: Let_def)

lemma dedupe_skip_duplicate:
  assumes "r1 \<in> set (dedupe pre)" and "dedupe_key r2 = dedupe_key r1"
  shows "dedupe (pre @ r2 # post) = dedupe (pre @ post)"
proof -
  have m: "r1 \<in> set (dedupe_loop pre {} [])" using assms(1) by (simp add: dedupe_def)
  obtain y where "y \<in> set pre" and "r1 = y"
    using dedupe_loop_subseq m by (rule list_emb_set)
  then have "r1 \<in> set pre" by simp
  moreover have "dedupe_key r1 \<noteq> []" using dedupe_loop_keys [OF m] by simp
  ultimately have "dedupe_key r2 \<in> {} \<union> (dedupe_key ` set pre - {[]})"
    using assms(2) by auto
  then have "dedupe_loop (r2 # post) ({} \<union> (dedupe_key ` set pre - {[]})) (dedupe_loop pre {} []) =
      dedupe_loop post ({} \<union> (dedupe_key ` set pre - {[]})) (dedupe_loop pre {} [])"
    by (simp add: Let_def)
  then show ?thesis
    unfolding dedupe_def dedupe_loop_append [of pre _ "{}" "[]"] .
qed

lemma strip_idem: "strip (strip s) = strip s"
proof -
  let ?t = "dropWhile isspace s"
  let ?v = "dropWhile isspace (rev ?t)"
  have v: "dropWhile isspace ?v = ?v"
    by (simp add: dropWhile_idem)
  have "dropWhile isspace (rev ?v) = rev ?v"
  proof (cases "?v = []")
    case True
    show ?thesis unfolding True by simp
  next
    case False
    have t: "?t \<noteq> []"
    proof
      assume "?t = []"
      then have "?v = []" by (simp only: rev.simps dropWhile.simps)
      with False show False by simp
    qed
    from t have "\<not> isspace (hd ?t)" by (rule hd_dropWhile)
    moreover have "last ?v = hd ?t"
    proof -
      have "last ?v = last (rev ?t)"
        using False by (metis last_appendR takeWhile_dropWhile_id)
      then show ?thesis using t by (simp add: last_rev)
    qed
    ultimately have "\<not> isspace (hd (rev ?v))"
      using False by (simp add: hd_rev)
    then show ?thesis by (simp add: dropWhile_eq_self_iff)
  qed
  then show ?thesis by (simp add: strip_def v)
qed

lemma strip_Nil [simp]: "strip [] = []"
  by (simp add: strip_def)

lemma dedupe_loop_trimmed:
  assumes "\<forall>r \<in> set rows. strip (link r) = link r \<and> strip (title r) = title r"
  shows "dedupe_loop rows seen [] = spec_dedupe_loop rows seen"
  using assms
proof (induction rows arbitrary: seen)
  case Nil
  show ?case by simp
next
  case (Cons r rows)
  have k: "dedupe_key r = spec_key r"
    using Cons.prems by (simp add: dedupe_key_def spec_key_def py_or_def)
  have e: "(spec_key r = []) = (link r = [] \<and> title r = [])"
    by (simp add: spec_key_def)
  have ih: "dedupe_loop rows s [] = spec_dedupe_loop rows s" for s
    using Cons.prems by (intro Cons.IH) simp
  show ?case
    using e by (simp add: dedupe_loop_Cons k ih del: dedupe_loop.simps(2))
qed

text \<open>
  C10. Keys taken from the link and keys taken from the title share one namespace:
  a later row whose key (its non-empty link, else its title) equals the key of an
  earlier surviving row is removed, whichever fields the two keys come from: the
  output is the one the input without that row gives.
\<close>

theorem dedupe_keys_share_namespace:
  assumes "r1 \<in> set (dedupe pre)" and "spec_key r2 = spec_key r1"
  shows "dedupe (pre @ r2 # post) = dedupe (pre @ post)"
proof -
  have "dedupe_key r2 = dedupe_key r1"
    using assms(2) by (simp add: dedupe_key_def spec_key_def py_or_def)
  with assms(1) show ?thesis by (rule dedupe_skip_duplicate)
qed

theorem dedupe_keys_share_namespace_witness:
  "mk_row ''A'' ''https://x/y'' \<in> set (dedupe [mk_row ''A'' ''https://x/y'']) \<and>
   link (mk_row ''https://x/y'' []) = [] \<and>
   title (mk_row ''https://x/y'' []) = link (mk_row ''A'' ''https://x/y'') \<and>
   spec_key (mk_row ''https://x/y'' []) = spec_key (mk_row ''A'' ''https://x/y'') \<and>
   dedupe ([mk_row ''A'' ''https://x/y''] @ mk_row ''https://x/y'' [] # [mk_row ''Z'' ''https://x/z'']) =
     dedupe ([mk_row ''A'' ''https://x/y''] @ [mk_row ''Z'' ''https://x/z'']) \<and>
   dedupe ([mk_row ''A'' ''https://x/y''] @ mk_row ''https://x/y'' [] # [mk_row ''Z'' ''https://x/z'']) =
     [mk_row ''A'' ''https://x/y'', mk_row ''Z'' ''https://x/z'']"
  using dedupe_keys_share_namespace [of "mk_row ''A'' ''https://x/y''" "[mk_row ''A'' ''https://x/y'']"
      "mk_row ''https://x/y'' []" "[mk_row ''Z'' ''https://x/z'']"]
  by (simp add: mk_row_def spec_key_def dedupe_def dedupe_key_def py_or_def strip_def isspace_def)

text \<open>
  C8. Deduplication is idempotent: \<open>dedupe (dedupe X) = dedupe X\<close> for every sequence
  of rows \<open>X\<close>.
\<close>

theorem dedupe_idempotent: "dedupe (dedupe X) = dedupe X"
proof -
  have "\<forall>r \<in> set (dedupe_loop X {} []). dedupe_key r \<noteq> [] \<and> dedupe_key r \<notin> {}"
    using dedupe_loop_keys [of _ X "{}"] by blast
  then have "dedupe_loop (dedupe_loop X {} []) {} [] = dedupe_loop X {} []"
    using dedupe_loop_distinct [of X "{}"] by (rule dedupe_loop_fixed)
  then show ?thesis by (simp add: dedupe_def)
qed

section \<open>Properties of the Source Resolver\<close>

lemma print_line_requested [simp]: "requested (print_line l w) = requested w"
  by (simp add: print_line_def)

lemma print_line_written [simp]: "written (print_line l w) = written w"
  by (simp add: print_line_def)

lemma print_line_dedupe_calls [simp]: "dedupe_calls (print_line l w) = dedupe_calls w"
  by (simp add: print_line_def)

lemma try_feed_urls_skip:
  assumes "url_entries env (requested w) url = []"
  shows "\<exists>w1. try_feed_urls env (url # url_list) max_items debug_name w =
            try_feed_urls env url_list max_items debug_name w1 \<and>
          requested w1 = requested w @ [url] \<and> written w1 = written w \<and>
          dedupe_calls w1 = dedupe_calls w"
proof (cases "requests_get env (requested w) url")
  case (Inl e)
  then show ?thesis
    apply (simp add: fetch_feed_text_def parse_with_feedparser_from_text_def Let_def)
      apply (intro exI conjI)
        apply (rule refl)
       apply simp_all
      done
next
  case (Inr r)
  show ?thesis
  proof (cases "body_text r = []")
    case True
    then show ?thesis using Inr
      apply (simp add: fetch_feed_text_def parse_with_feedparser_from_text_def Let_def)
      apply (intro exI conjI)
        apply (rule refl)
       apply simp_all
      done
  next
    case False
    then have "entries (feedparser_parse env (body_text r)) = []"
      using assms Inr by (simp add: url_entries_def)
    then show ?thesis using Inr False
      apply (simp add: fetch_feed_text_def parse_with_feedparser_from_text_def Let_def)
      apply (intro conjI impI)
       apply (intro exI conjI)
          apply (rule refl)
         apply simp
        apply simp
       apply simp
      apply (intro exI conjI)
         apply (rule refl)
        apply simp
       apply simp
      apply simp
      done
  qed
qed

lemma try_feed_urls_win:
  assumes "url_entries env (requested w) url \<noteq> []"
  shows "\<exists>w1. try_feed_urls env (url # url_list) max_items debug_name w =
            (map (entry_row env debug_name) (py_slice_to (url_entries env (requested w) url) max_items), w1) \<and>
          requested w1 = requested w @ [url] \<and> written w1 = written w \<and>
          dedupe_calls w1 = dedupe_calls w"
proof (cases "requests_get env (requested w) url")
  case (Inl e)
  then show ?thesis using assms by (simp add: url_entries_def)
next
  case (Inr r)
  then have ne: "body_text r \<noteq> []" and en: "entries (feedparser_parse env (body_text r)) \<noteq> []"
    using assms by (auto simp: url_entries_def split: if_splits)
  have ue: "url_entries env (requested w) url = entries (feedparser_parse env (body_text r))"
    using Inr ne by (simp add: url_entries_def)
  show ?thesis
    unfolding ue using Inr ne en by (simp add: fetch_feed_text_def parse_with_feedparser_from_text_def Let_def)
qed


lemma try_feed_urls_length:
  assumes "0 \<le> max_items"
  shows "length (fst (try_feed_urls env url_list max_items debug_name w)) \<le> nat max_items"
proof (induction url_list arbitrary: w)
  case Nil
  show ?case by simp
next
  case (Cons url url_list)
  show ?case
  proof (cases "url_entries env (requested w) url = []")
    case True
    then obtain w1 where "try_feed_urls env (url # url_list) max_items debug_name w =
        try_feed_urls env url_list max_items debug_name w1"
      using try_feed_urls_skip by blast
    then show ?thesis using Cons.IH [of w1] by simp
  next
    case False
    then obtain w1 where "try_feed_urls env (url # url_list) max_items debug_name w =
        (map (entry_row env debug_name)
          (py_slice_to (url_entries env (requested w) url) max_items), w1)"
      using try_feed_urls_win by blast
    then show ?thesis using assms by (simp add: py_slice_to_def)
  qed
qed

lemma try_feed_urls_first:
  assumes "\<forall>i < length pre. url_entries env (requested w @ take i pre) (pre ! i) = []"
    and "url_entries env (requested w @ pre) url \<noteq> []"
  shows "fst (try_feed_urls env (pre @ url # post) max_items debug_name w) =
           map (entry_row env debug_name)
             (py_slice_to (url_entries env (requested w @ pre) url) max_items) \<and>
         requested (snd (try_feed_urls env (pre @ url # post) max_items debug_name w)) =
           requested w @ pre @ [url] \<and>
         written (snd (try_feed_urls env (pre @ url # post) max_items debug_name w)) = written w"
  using assms
proof (induction pre arbitrary: w)
  case Nil
  then have "url_entries env (requested w) url \<noteq> []" by simp
  then obtain w1 where "try_feed_urls env (url # post) max_items debug_name w =
        (map (entry_row env debug_name)
          (py_slice_to (url_entries env (requested w) url) max_items), w1)"
      and "requested w1 = requested w @ [url]" and "written w1 = written w"
    using try_feed_urls_win by blast
  then show ?case by simp
next
  case (Cons p pre)
  have "url_entries env (requested w) p = []"
    using Cons.prems(1) by fastforce
  then obtain w1 where step: "try_feed_urls env (p # pre @ url # post) max_items debug_name w =
        try_feed_urls env (pre @ url # post) max_items debug_name w1"
      and req: "requested w1 = requested w @ [p]" and wr: "written w1 = written w"
    using try_feed_urls_skip by blast
  have a: "\<forall>i < length pre. url_entries env (requested w1 @ take i pre) (pre ! i) = []"
  proof (intro allI impI)
    fix i assume "i < length pre"
    then have "url_entries env (requested w @ take (Suc i) (p # pre)) ((p # pre) ! Suc i) = []"
      using Cons.prems(1) by (metis Suc_less_eq length_Cons)
    then show "url_entries env (requested w1 @ take i pre) (pre ! i) = []"
      by (simp add: req)
  qed
  have b: "url_entries env (requested w1 @ pre) url \<noteq> []"
    using Cons.prems(2) by (simp add: req)
  show ?case
    using Cons.IH [OF a b] step req wr by simp
qed

lemma try_feed_urls_none:
  assumes "\<forall>i < length url_list. url_entries env (requested w @ take i url_list) (url_list ! i) = []"
  shows "fst (try_feed_urls env url_list max_items debug_name w) = [] \<and>
         requested (snd (try_feed_urls env url_list max_items debug_name w)) = requested w @ url_list \<and>
         written (snd (try_feed_urls env url_list max_items debug_name w)) = written w"
  using assms
proof (induction url_list arbitrary: w)
  case Nil
  show ?case by simp
next
  case (Cons p pre)
  have "url_entries env (requested w) p = []"
    using Cons.prems(1) by fastforce
  then obtain w1 where step: "try_feed_urls env (p # pre) max_items debug_name w =
        try_feed_urls env pre max_items debug_name w1"
      and req: "requested w1 = requested w @ [p]" and wr: "written w1 = written w"
    using try_feed_urls_skip by blast
  have a: "\<forall>i < length pre. url_entries env (requested w1 @ take i pre) (pre ! i) = []"
  proof (intro allI impI)
    fix i assume "i < length pre"
    then have "url_entries env (requested w @ take (Suc i) (p # pre)) ((p # pre) ! Suc i) = []"
      using Cons.prems(1) by (metis Suc_less_eq length_Cons)
    then show "url_entries env (requested w1 @ take i pre) (pre ! i) = []"
      by (simp add: req)
  qed
  show ?case
    using Cons.IH [OF a] step req wr by simp
qed

lemma entry_row_requests_get [simp]:
  "entry_row (env\<lparr>requests_get := g\<rparr>) debug_name e = entry_row env debug_name e"
  by (simp add: entry_row_def Let_def split: option.split)

lemma url_entries_same_body:
  assumes "\<forall>hist url. body_of (g hist url) = body_of (requests_get env hist url)"
  shows "url_entries (env\<lparr>requests_get := g\<rparr>) hist url = url_entries env hist url"
proof -
  have "body_of (g hist url) = body_of (requests_get env hist url)"
    using assms by simp
  then show ?thesis
    by (cases "g hist url"; cases "requests_get env hist url")
      (simp_all add: url_entries_def body_of_def)
qed

lemma try_feed_urls_same_body:
  assumes "\<forall>hist url. body_of (g hist url) = body_of (requests_get env hist url)"
    and "requested w' = requested w"
  shows "fst (try_feed_urls (env\<lparr>requests_get := g\<rparr>) url_list max_items debug_name w') =
           fst (try_feed_urls env url_list max_items debug_name w) \<and>
         requested (snd (try_feed_urls (env\<lparr>requests_get := g\<rparr>) url_list max_items debug_name w')) =
           requested (snd (try_feed_urls env url_list max_items debug_name w))"
  using assms(2)
proof (induction url_list arbitrary: w w')
  case Nil
  then show ?case by simp
next
  case (Cons url url_list)
  let ?env' = "env\<lparr>requests_get := g\<rparr>"
  have same: "url_entries ?env' (requested w') url = url_entries env (requested w) url"
    using url_entries_same_body [OF assms(1)] Cons.prems by simp
  show ?case
  proof (cases "url_entries env (requested w) url = []")
    case True
    obtain w1 where s1: "try_feed_urls env (url # url_list) max_items debug_name w =
        try_feed_urls env url_list max_items debug_name w1"
      and r1: "requested w1 = requested w @ [url]"
      using try_feed_urls_skip [OF True] by blast
    have "url_entries ?env' (requested w') url = []" using True same by simp
    then obtain w1' where s1': "try_feed_urls ?env' (url # url_list) max_items debug_name w' =
        try_feed_urls ?env' url_list max_items debug_name w1'"
      and r1': "requested w1' = requested w' @ [url]"
      using try_feed_urls_skip by blast
    have "requested w1' = requested w1" using r1 r1' Cons.prems by simp
    then show ?thesis
      using Cons.IH [of w1' w1] s1 s1' by simp
  next
    case False
    obtain w1 where s1: "try_feed_urls env (url # url_list) max_items debug_name w =
        (map (entry_row env debug_name)
          (py_slice_to (url_entries env (requested w) url) max_items), w1)"
      and r1: "requested w1 = requested w @ [url]"
      using try_feed_urls_win [OF False] by blast
    have "url_entries ?env' (requested w') url \<noteq> []" using False same by simp
    then obtain w1' where s1': "try_feed_urls ?env' (url # url_list) max_items debug_name w' =
        (map (entry_row ?env' debug_name)
          (py_slice_to (url_entries ?env' (requested w') url) max_items), w1')"
      and r1': "requested w1' = requested w' @ [url]"
      using try_feed_urls_win by blast
    show ?thesis
      using s1 s1' r1 r1' same Cons.prems by simp
  qed
qed

lemma entry_row_trimmed:
  "strip (link (entry_row env debug_name e)) = link (entry_row env debug_name e) \<and>
   strip (title (entry_row env debug_name e)) = title (entry_row env debug_name e)"
  by (simp add: entry_row_def Let_def strip_idem)

lemma try_feed_urls_trimmed:
  "\<forall>r \<in> set (fst (try_feed_urls env url_list max_items debug_name w)).
     strip (link r) = link r \<and> strip (title r) = title r"
proof (induction url_list arbitrary: w)
  case Nil
  show ?case by simp
next
  case (Cons url url_list)
  show ?case
  proof (cases "url_entries env (requested w) url = []")
    case True
    then obtain w1 where "try_feed_urls env (url # url_list) max_items debug_name w =
        try_feed_urls env url_list max_items debug_name w1"
      using try_feed_urls_skip by blast
    then show ?thesis using Cons.IH [of w1] by simp
  next
    case False
    then obtain w1 where "try_feed_urls env (url # url_list) max_items debug_name w =
        (map (entry_row env debug_name)
          (py_slice_to (url_entries env (requested w) url) max_items), w1)"
      using try_feed_urls_win by blast
    then show ?thesis using entry_row_trimmed by auto
  qed
qed

text \<open>
  C2. For every source name, ordered URL list and (non-negative) \<open>max_items\<close>,
  \<open>try_feed_urls\<close> returns at most \<open>max_items\<close> rows. When \<open>url\<close> is the first URL of
  the list that yields one or more parsed entries (every URL before it yields none
  at the time it is tried), the rows are those of the first \<open>max_items\<close> entries of
  that URL, in the parser's order, and the requests made are exactly those for the
  URLs up to and including \<open>url\<close>: no later URL is attempted, however few entries
  \<open>url\<close> yields.
\<close>

theorem try_feed_urls_first_yielding:
  assumes "0 \<le> max_items"
  shows "length (fst (try_feed_urls env url_list max_items debug_name w)) \<le> nat max_items \<and>
    (url_list = pre @ url # post \<and>
     (\<forall>i < length pre. url_entries env (requested w @ take i pre) (pre ! i) = []) \<and>
     url_entries env (requested w @ pre) url \<noteq> [] \<longrightarrow>
       fst (try_feed_urls env url_list max_items debug_name w) =
         map (entry_row env debug_name)
           (take (nat max_items) (url_entries env (requested w @ pre) url)) \<and>
       requested (snd (try_feed_urls env url_list max_items debug_name w)) =
         requested w @ pre @ [url])"
proof (intro conjI impI)
  show "length (fst (try_feed_urls env url_list max_items debug_name w)) \<le> nat max_items"
    using assms by (rule try_feed_urls_length)
next
  assume a: "url_list = pre @ url # post \<and>
     (\<forall>i < length pre. url_entries env (requested w @ take i pre) (pre ! i) = []) \<and>
     url_entries env (requested w @ pre) url \<noteq> []"
  then have f: "fst (try_feed_urls env (pre @ url # post) max_items debug_name w) =
           map (entry_row env debug_name)
             (py_slice_to (url_entries env (requested w @ pre) url) max_items) \<and>
         requested (snd (try_feed_urls env (pre @ url # post) max_items debug_name w)) =
           requested w @ pre @ [url]"
    using try_feed_urls_first [of pre env w url post max_items debug_name] by blast
  show "fst (try_feed_urls env url_list max_items debug_name w) =
         map (entry_row env debug_name)
           (take (nat max_items) (url_entries env (requested w @ pre) url))"
    using f a assms by (simp add: py_slice_to_def)
  show "requested (snd (try_feed_urls env url_list max_items debug_name w)) =
         requested w @ pre @ [url]"
    using f a by simp
qed

text \<open>
  The scenario of the specification: \<open>U1\<close> fails at transport, \<open>U2\<close> returns a body with
  three entries, \<open>max_items = 4\<close>; three rows come back and \<open>U3\<close> is never requested.
\<close>

theorem try_feed_urls_first_yielding_witness:
  "(0::int) \<le> 4 \<and>
   url_entries (stub_env ''U2'' three_entries) (requested world0 @ take 0 [''U1'']) ([''U1''] ! 0) = [] \<and>
   url_entries (stub_env ''U2'' three_entries) (requested world0 @ [''U1'']) ''U2'' = three_entries \<and>
   fst (try_feed_urls (stub_env ''U2'' three_entries) [''U1'', ''U2'', ''U3''] 4 ''A'' world0) =
     map (entry_row (stub_env ''U2'' three_entries) ''A'') three_entries \<and>
   length (fst (try_feed_urls (stub_env ''U2'' three_entries) [''U1'', ''U2'', ''U3''] 4 ''A'' world0)) = 3 \<and>
   requested (snd (try_feed_urls (stub_env ''U2'' three_entries) [''U1'', ''U2'', ''U3''] 4 ''A'' world0)) =
     [''U1'', ''U2'']"
  using try_feed_urls_first_yielding [of 4 "stub_env ''U2'' three_entries" "[''U1'', ''U2'', ''U3'']"
      "''A''" world0 "[''U1'']" "''U2''" "[''U3'']"]
  by (simp add: url_entries_def stub_env_def three_entries_def world0_def)

text \<open>
  C5. For every raw feed entry and source name the row built has: the source name as
  \<open>source\<close>; the entry's title, trimmed, as \<open>title\<close>, empty if absent; the entry's link,
  trimmed, as \<open>link\<close>, empty if absent; as \<open>published\<close> the entry's published text
  (when present and not empty), else its updated text, else the empty string; as
  \<open>published_dt\<close> the timestamp built from the first six fields of the parsed-date
  tuple when the parser supplied one, else the textual parse of a non-empty
  \<open>published\<close>; and no timestamp when the attempt made fails or \<open>published\<close> is empty.
\<close>

theorem entry_row_fields:
  "source (entry_row env debug_name e) = debug_name \<and>
   title (entry_row env debug_name e) = strip (case e_title e of None \<Rightarrow> [] | Some t \<Rightarrow> t) \<and>
   link (entry_row env debug_name e) = strip (case e_link e of None \<Rightarrow> [] | Some l \<Rightarrow> l) \<and>
   (e_published e = Some p \<and> p \<noteq> [] \<longrightarrow> published (entry_row env debug_name e) = p) \<and>
   ((e_published e = None \<or> e_published e = Some []) \<and> e_updated e = Some u \<longrightarrow>
      published (entry_row env debug_name e) = u) \<and>
   ((e_published e = None \<or> e_published e = Some []) \<and> e_updated e = None \<longrightarrow>
      published (entry_row env debug_name e) = []) \<and>
   (e_published_parsed e = Some tm \<and> tm \<noteq> [] \<longrightarrow>
      published_dt (entry_row env debug_name e) = map_option Naive (datetime_ctor env (take 6 tm))) \<and>
   ((e_published_parsed e = None \<or> e_published_parsed e = Some []) \<and>
    published (entry_row env debug_name e) \<noteq> [] \<longrightarrow>
      published_dt (entry_row env debug_name e) =
        dateutil_parse env (published (entry_row env debug_name e))) \<and>
   ((e_published_parsed e = None \<or> e_published_parsed e = Some []) \<and>
    published (entry_row env debug_name e) = [] \<longrightarrow>
      published_dt (entry_row env debug_name e) = None)"
  by (auto simp: entry_row_def Let_def getattr_str_def py_or_def split: option.splits)

theorem entry_row_fields_witness:
  "entry_row textual_env ''A'' (mk_entry '' T1 '' ''https://a/1'' [2024, 1, 1, 10, 0, 0, 0, 1, 0]) =
     \<lparr>source = ''A'', title = ''T1'', link = ''https://a/1'', published = ''Mon, 01 Jan 2024'',
      published_dt = Some (Naive 65055780000)\<rparr> \<and>
   e_published entry_updated_only = None \<and>
   e_updated entry_updated_only = Some ''2024-01-02T03:04:05Z'' \<and>
   e_published_parsed entry_updated_only = None \<and>
   entry_row textual_env ''A'' entry_updated_only =
     \<lparr>source = ''A'', title = [], link = ''https://a/9'', published = ''2024-01-02T03:04:05Z'',
      published_dt = Some (Aware 1704164645)\<rparr> \<and>
   e_published_parsed entry_bad_tuple = Some [2024, 1] \<and>
   datetime_ctor textual_env (take 6 [2024, 1]) = None \<and>
   dateutil_parse textual_env ''2024-01-02T03:04:05Z'' = Some (Aware 1704164645) \<and>
   entry_row textual_env ''A'' entry_bad_tuple =
     \<lparr>source = ''A'', title = ''T'', link = [], published = ''2024-01-02T03:04:05Z'',
      published_dt = None\<rparr> \<and>
   e_published entry_bare = Some [] \<and> e_updated entry_bare = None \<and>
   e_published_parsed entry_bare = Some [] \<and>
   entry_row textual_env ''A'' entry_bare =
     \<lparr>source = ''A'', title = [], link = [], published = [], published_dt = None\<rparr>"
  using entry_row_fields [of textual_env "''A''"
      "mk_entry '' T1 '' ''https://a/1'' [2024, 1, 1, 10, 0, 0, 0, 1, 0]" "''Mon, 01 Jan 2024''" "[]"
      "[2024, 1, 1, 10, 0, 0, 0, 1, 0]"]
    entry_row_fields [of textual_env "''A''" entry_updated_only "[]" "''2024-01-02T03:04:05Z''" "[]"]
    entry_row_fields [of textual_env "''A''" entry_bad_tuple "''2024-01-02T03:04:05Z''" "[]" "[2024, 1]"]
    entry_row_fields [of textual_env "''A''" entry_bare "[]" "[]" "[]"]
  by (simp add: textual_env_def mk_entry_def stub_env_def strip_def isspace_def six_fields_def
      entry_updated_only_def entry_bad_tuple_def entry_bare_def entry_row_def Let_def
      getattr_str_def py_or_def)

text \<open>
  C6. A transport failure of \<open>requests.get\<close> becomes the result value
  \<open>(None, None, "error: ...")\<close> of \<open>fetch_feed_text\<close>. If every candidate URL of a
  source fails at transport, yields an empty body or yields zero parsed entries,
  \<open>try_feed_urls\<close> returns the empty list, after trying every URL once, in order.
\<close>

theorem resolver_all_urls_fail:
  "(requests_get env (requested w) url = Inl msg \<longrightarrow>
      fetch_feed_text env url w =
        ((None, None, ''error: '' @ msg), w\<lparr>requested := requested w @ [url]\<rparr>)) \<and>
   ((\<forall>i < length url_list.
       case requests_get env (requested w @ take i url_list) (url_list ! i) of
         Inl msg \<Rightarrow> True
       | Inr r \<Rightarrow> body_text r = [] \<or> entries (feedparser_parse env (body_text r)) = []) \<longrightarrow>
      fst (try_feed_urls env url_list max_items debug_name w) = [] \<and>
      requested (snd (try_feed_urls env url_list max_items debug_name w)) =
        requested w @ url_list)"
proof (intro conjI impI)
  assume "requests_get env (requested w) url = Inl msg"
  then show "fetch_feed_text env url w =
        ((None, None, ''error: '' @ msg), w\<lparr>requested := requested w @ [url]\<rparr>)"
    by (simp add: fetch_feed_text_def)
next
  assume a: "\<forall>i < length url_list.
       case requests_get env (requested w @ take i url_list) (url_list ! i) of
         Inl msg \<Rightarrow> True
       | Inr r \<Rightarrow> body_text r = [] \<or> entries (feedparser_parse env (body_text r)) = []"
  have "\<forall>i < length url_list. url_entries env (requested w @ take i url_list) (url_list ! i) = []"
  proof (intro allI impI)
    fix i assume "i < length url_list"
    with a show "url_entries env (requested w @ take i url_list) (url_list ! i) = []"
      by (auto simp: url_entries_def split: sum.splits)
  qed
  then have n: "fst (try_feed_urls env url_list max_items debug_name w) = [] \<and>
         requested (snd (try_feed_urls env url_list max_items debug_name w)) = requested w @ url_list \<and>
         written (snd (try_feed_urls env url_list max_items debug_name w)) = written w"
    by (rule try_feed_urls_none)
  show "fst (try_feed_urls env url_list max_items debug_name w) = []" using n by simp
  show "requested (snd (try_feed_urls env url_list max_items debug_name w)) = requested w @ url_list"
    using n by simp
qed

theorem resolver_all_urls_fail_witness:
  "requests_get failing_env (requested world0) ''U1'' = Inl ''timed out'' \<and>
   fst (fetch_feed_text failing_env ''U1'' world0) = (None, None, ''error: timed out'') \<and>
   requests_get failing_env [''U1''] ''U2'' =
     Inr \<lparr>status_code = 200, body_text = [], content_type = None\<rparr> \<and>
   requests_get failing_env [''U1'', ''U2''] ''U3'' =
     Inr \<lparr>status_code = 404, body_text = ''<html>'', content_type = Some ''text/html''\<rparr> \<and>
   entries (feedparser_parse failing_env ''<html>'') = [] \<and>
   fst (try_feed_urls failing_env [''U1'', ''U2'', ''U3''] 4 ''A'' world0) = [] \<and>
   requested (snd (try_feed_urls failing_env [''U1'', ''U2'', ''U3''] 4 ''A'' world0)) =
     [''U1'', ''U2'', ''U3'']"
  using resolver_all_urls_fail [of failing_env world0 "''U1''" "''timed out''"
      "[''U1'', ''U2'', ''U3'']" 4 "''A''"]
  by (simp add: failing_env_def world0_def All_less_Suc2 numeral_3_eq_3)

text \<open>
  C9. The rows \<open>try_feed_urls\<close> returns do not depend on the status code or the
  content type of the responses: replacing \<open>requests.get\<close> by any \<open>g\<close> whose
  responses carry the same bodies (and fail at transport for the same requests)
  changes neither the rows returned nor the URLs requested.
\<close>

theorem resolver_ignores_status:
  assumes "\<forall>hist url. body_of (g hist url) = body_of (requests_get env hist url)"
  shows "fst (try_feed_urls (env\<lparr>requests_get := g\<rparr>) url_list max_items debug_name w) =
           fst (try_feed_urls env url_list max_items debug_name w) \<and>
         requested (snd (try_feed_urls (env\<lparr>requests_get := g\<rparr>) url_list max_items debug_name w)) =
           requested (snd (try_feed_urls env url_list max_items debug_name w))"
  using assms by (rule try_feed_urls_same_body) simp

theorem resolver_ignores_status_witness:
  "body_of (error_status_get [''U1''] ''U2'') =
     body_of (requests_get (stub_env ''U2'' three_entries) [''U1''] ''U2'') \<and>
   requests_get (stub_env ''U2'' three_entries) [''U1''] ''U2'' =
     Inr \<lparr>status_code = 200, body_text = ''<rss>'', content_type = Some ''application/rss+xml''\<rparr> \<and>
   error_status_get [''U1''] ''U2'' =
     Inr \<lparr>status_code = 503, body_text = ''<rss>'', content_type = Some ''text/html''\<rparr> \<and>
   fst (try_feed_urls ((stub_env ''U2'' three_entries)\<lparr>requests_get := error_status_get\<rparr>)
          [''U1'', ''U2''] 4 ''A'' world0) =
     fst (try_feed_urls (stub_env ''U2'' three_entries) [''U1'', ''U2''] 4 ''A'' world0) \<and>
   length (fst (try_feed_urls (stub_env ''U2'' three_entries) [''U1'', ''U2''] 4 ''A'' world0)) = 3"
proof -
  have h: "\<forall>hist url. body_of (error_status_get hist url) =
      body_of (requests_get (stub_env ''U2'' three_entries) hist url)"
    by (simp add: body_of_def error_status_get_def stub_env_def)
  have l: "length (fst (try_feed_urls (stub_env ''U2'' three_entries) [''U1'', ''U2''] 4 ''A'' world0)) = 3"
    by (simp add: stub_env_def three_entries_def fetch_feed_text_def
        parse_with_feedparser_from_text_def Let_def py_slice_to_def)
  have c1: "body_of (error_status_get [''U1''] ''U2'') =
      body_of (requests_get (stub_env ''U2'' three_entries) [''U1''] ''U2'')"
    using h by blast
  have c2: "requests_get (stub_env ''U2'' three_entries) [''U1''] ''U2'' =
      Inr \<lparr>status_code = 200, body_text = ''<rss>'', content_type = Some ''application/rss+xml''\<rparr>"
    by (simp add: stub_env_def)
  have c3: "error_status_get [''U1''] ''U2'' =
      Inr \<lparr>status_code = 503, body_text = ''<rss>'', content_type = Some ''text/html''\<rparr>"
    by (simp add: error_status_get_def)
  have c4: "fst (try_feed_urls ((stub_env ''U2'' three_entries)\<lparr>requests_get := error_status_get\<rparr>)
          [''U1'', ''U2''] 4 ''A'' world0) =
     fst (try_feed_urls (stub_env ''U2'' three_entries) [''U1'', ''U2''] 4 ''A'' world0)"
    using resolver_ignores_status [OF h, of "[''U1'', ''U2'']" 4 "''A''" world0] by (rule conjunct1)
  from c1 c2 c3 c4 l show ?thesis by (intro conjI)
qed

section \<open>Properties of the pipeline\<close>

lemma subseq_set_subset: "subseq ys xs \<Longrightarrow> set ys \<subseteq> set xs"
proof
  fix y assume "subseq ys xs" and "y \<in> set ys"
  then obtain z where "z \<in> set xs" and "y = z" by (rule list_emb_set)
  then show "y \<in> set xs" by simp
qed

lemma sorted_wrt_subseq: "subseq ys xs \<Longrightarrow> sorted_wrt P xs \<Longrightarrow> sorted_wrt P ys"
proof (induction ys xs rule: list_emb.induct)
  case (list_emb_Nil ys)
  show ?case by simp
next
  case (list_emb_Cons xs ys y)
  then show ?case by simp
next
  case (list_emb_Cons2 x y xs ys)
  have "set xs \<subseteq> set ys" using list_emb_Cons2.hyps(2) by (rule subseq_set_subset)
  then show ?case using list_emb_Cons2 by auto
qed

lemma try_feed_urls_frame:
  "written (snd (try_feed_urls env url_list max_items debug_name w)) = written w \<and>
   dedupe_calls (snd (try_feed_urls env url_list max_items debug_name w)) = dedupe_calls w"
proof (induction url_list arbitrary: w)
  case Nil
  show ?case by simp
next
  case (Cons url url_list)
  show ?case
  proof (cases "url_entries env (requested w) url = []")
    case True
    then obtain w1 where "try_feed_urls env (url # url_list) max_items debug_name w =
        try_feed_urls env url_list max_items debug_name w1" and "written w1 = written w"
      and "dedupe_calls w1 = dedupe_calls w"
      using try_feed_urls_skip by blast
    then show ?thesis using Cons.IH [of w1] by simp
  next
    case False
    then obtain w1 where "try_feed_urls env (url # url_list) max_items debug_name w =
        (map (entry_row env debug_name)
          (py_slice_to (url_entries env (requested w) url) max_items), w1)"
      and "written w1 = written w" and "dedupe_calls w1 = dedupe_calls w"
      using try_feed_urls_win by blast
    then show ?thesis by simp
  qed
qed

lemma fetch_sources_frame:
  "written (snd (fetch_sources env feeds max_items all_rows w)) = written w \<and>
   dedupe_calls (snd (fetch_sources env feeds max_items all_rows w)) = dedupe_calls w"
proof (induction feeds arbitrary: all_rows w)
  case Nil
  show ?case by simp
next
  case (Cons feed feeds)
  obtain source_name urls where feed: "feed = (source_name, urls)" by (cases feed)
  obtain rows w1 where t: "try_feed_urls env urls max_items source_name w = (rows, w1)"
    by (cases "try_feed_urls env urls max_items source_name w")
  have "written w1 = written w \<and> dedupe_calls w1 = dedupe_calls w"
    using try_feed_urls_frame [of env urls max_items source_name w] t by simp
  then show ?case
    using Cons.IH [of "all_rows @ rows" "print_line (Fetched (length rows) source_name) w1"] feed t
    by simp
qed

lemma fetch_sources_batches:
  "fst (fetch_sources env feeds max_items all_rows w) =
     all_rows @ concat (source_batches env feeds max_items w)"
proof (induction feeds arbitrary: all_rows w)
  case Nil
  show ?case by simp
next
  case (Cons feed feeds)
  obtain source_name urls where feed: "feed = (source_name, urls)" by (cases feed)
  obtain rows w1 where t: "try_feed_urls env urls max_items source_name w = (rows, w1)"
    by (cases "try_feed_urls env urls max_items source_name w")
  show ?case
    using Cons.IH [of "all_rows @ rows" "print_line (Fetched (length rows) source_name) w1"] feed t
    by simp
qed

lemma fetch_sources_trimmed:
  assumes "\<forall>r \<in> set all_rows. strip (link r) = link r \<and> strip (title r) = title r"
  shows "\<forall>r \<in> set (fst (fetch_sources env feeds max_items all_rows w)).
           strip (link r) = link r \<and> strip (title r) = title r"
  using assms
proof (induction feeds arbitrary: all_rows w)
  case Nil
  then show ?case by simp
next
  case (Cons feed feeds)
  obtain source_name urls where feed: "feed = (source_name, urls)" by (cases feed)
  obtain rows w1 where t: "try_feed_urls env urls max_items source_name w = (rows, w1)"
    by (cases "try_feed_urls env urls max_items source_name w")
  have "\<forall>r \<in> set rows. strip (link r) = link r \<and> strip (title r) = title r"
    using try_feed_urls_trimmed [of env urls max_items source_name w] t by simp
  then have "\<forall>r \<in> set (all_rows @ rows). strip (link r) = link r \<and> strip (title r) = title r"
    using Cons.prems by auto
  then have "\<forall>r \<in> set (fst (fetch_sources env feeds max_items (all_rows @ rows)
      (print_line (Fetched (length rows) source_name) w1))).
      strip (link r) = link r \<and> strip (title r) = title r"
    by (rule Cons.IH)
  then show ?case using feed t by simp
qed

lemma py_sort_reverse_sorted:
  assumes "py_sort_reverse key xs = Inr s"
  shows "sorted_wrt (\<lambda>a b. dt_ge (key a) (key b)) s"
    and "set s = set xs" and "length s = length xs"
proof -
  let ?f = "\<lambda>x. key_pos (key x)"
  have ok: "length xs \<le> 1 \<or> (\<forall>a \<in> set xs. \<forall>b \<in> set xs. comparable (key a) (key b))"
    using assms by (auto simp: py_sort_reverse_def Let_def list_all_iff split: if_splits)
  have s: "s = rev (sort_key ?f (rev xs))"
    using assms by (auto simp: py_sort_reverse_def Let_def split: if_splits)
  show "set s = set xs" by (simp add: s)
  show len: "length s = length xs" by (simp add: s)
  have "sorted (map ?f (sort_key ?f (rev xs)))" by (rule sorted_sort_key)
  then have "sorted_wrt (\<lambda>a b. ?f a \<le> ?f b) (sort_key ?f (rev xs))"
    by (simp add: sorted_map)
  then have desc: "sorted_wrt (\<lambda>a b. ?f b \<le> ?f a) s"
    by (simp add: s sorted_wrt_rev)
  show "sorted_wrt (\<lambda>a b. dt_ge (key a) (key b)) s"
  proof (cases "length xs \<le> 1")
    case True
    then show ?thesis using len by (simp add: sorted_wrt01)
  next
    case False
    then have cmp: "\<forall>a \<in> set s. \<forall>b \<in> set s. comparable (key a) (key b)"
      using ok by (simp add: s)
    have "dt_ge (key a) (key b)"
      if "a \<in> set s" "b \<in> set s" "?f b \<le> ?f a" for a b
    proof -
      have "comparable (key a) (key b)" using cmp that by blast
      then show ?thesis using that(3)
        by (cases "key a"; cases "key b") simp_all
    qed
    then show ?thesis
      using desc sorted_wrt_mono_rel [of s "\<lambda>a b. ?f b \<le> ?f a" "\<lambda>a b. dt_ge (key a) (key b)"]
      by blast
  qed
qed

lemma py_sort_reverse_mixed:
  assumes "a \<in> set xs" and "b \<in> set xs"
    and "key a = Some (Naive s)" and "key b = Some (Aware t)"
  shows "py_sort_reverse key xs = Inl TypeError"
proof -
  have "a \<noteq> b" using assms(3,4) by auto
  then have "\<not> length xs \<le> 1"
    using assms(1,2) by (cases xs; cases "tl xs") auto
  moreover have "\<not> list_all (\<lambda>x. list_all (comparable x) (map key xs)) (map key xs)"
  proof
    assume "list_all (\<lambda>x. list_all (comparable x) (map key xs)) (map key xs)"
    then have "comparable (key a) (key b)"
      using assms(1,2) by (auto simp: list_all_iff)
    then show False using assms(3,4) by simp
  qed
  ultimately show ?thesis by (simp add: py_sort_reverse_def Let_def)
qed

lemma py_slice_to_subseq: "subseq (py_slice_to xs n) xs"
proof -
  have "subseq (take k xs) xs" for k
  proof -
    have "subseq (take k xs) (take k xs @ drop k xs)"
      by (rule list_emb_prefix) simp
    then show ?thesis by simp
  qed
  then show ?thesis by (simp add: py_slice_to_def)
qed

lemma foldl_print_frame:
  "written (foldl (\<lambda>w (i, r). print_line (l i r) w) w0 xs) = written w0 \<and>
   dedupe_calls (foldl (\<lambda>w (i, r). print_line (l i r) w) w0 xs) = dedupe_calls w0"
  by (induction xs arbitrary: w0) (auto simp: print_line_def)

lemma collect_rows_frame:
  "written (snd (collect_rows env argv w)) = written w \<and>
   dedupe_calls (snd (collect_rows env argv w)) = dedupe_calls w"
proof -
  have a: "written (snd (fetch_sources env FEEDS m [] (print_line (ModeLine (MODE argv)) w))) = written w \<and>
      dedupe_calls (snd (fetch_sources env FEEDS m [] (print_line (ModeLine (MODE argv)) w))) =
        dedupe_calls w"
    for m
    by (simp add: fetch_sources_frame)
  show ?thesis
    using a [of HEADLINES_PER_SOURCE] a [of MAX_PER_SOURCE_FOR_GLOBAL]
    by (auto simp: collect_rows_def Let_def split: prod.splits sum.splits)
qed

lemma collect_rows_trimmed:
  assumes "collect_rows env argv w = (Inr rows, w2)"
  shows "\<forall>r \<in> set rows. strip (link r) = link r \<and> strip (title r) = title r"
proof -
  have t: "\<forall>r \<in> set (fst (fetch_sources env FEEDS m [] w1)).
      strip (link r) = link r \<and> strip (title r) = title r" for m w1
    by (rule fetch_sources_trimmed) simp
  show ?thesis
  proof (cases "MODE argv = per_source")
    case True
    then have "rows = fst (fetch_sources env FEEDS HEADLINES_PER_SOURCE []
        (print_line (ModeLine (MODE argv)) w))"
      using assms by (auto simp: collect_rows_def Let_def split: prod.splits)
    then show ?thesis using t by simp
  next
    case False
    let ?all = "fst (fetch_sources env FEEDS MAX_PER_SOURCE_FOR_GLOBAL []
        (print_line (ModeLine (MODE argv)) w))"
    obtain s where s: "py_sort_reverse published_dt (filter (\<lambda>r. published_dt r \<noteq> None) ?all) = Inr s"
      and rows: "rows = py_slice_to s TOTAL_GLOBAL_TOP"
      using assms False by (auto simp: collect_rows_def Let_def split: prod.splits sum.splits)
    have "set rows \<subseteq> set s"
      unfolding rows using py_slice_to_subseq by (rule subseq_set_subset)
    moreover have "set s = set (filter (\<lambda>r. published_dt r \<noteq> None) ?all)"
      using s by (rule py_sort_reverse_sorted(2))
    ultimately have "set rows \<subseteq> set ?all" by auto
    then show ?thesis using t by blast
  qed
qed

lemma save_at:
  "save env rows w =
     (fst (save env rows world0), w\<lparr>written := written w @ written (snd (save env rows world0))\<rparr>)"
  by (simp add: save_def world0_def split: option.splits)

lemma files_of_rows: "ev \<in> set (files_of env rows) \<Longrightarrow> event_rows ev = rows"
  by (auto simp: files_of_def save_def world0_def split: if_splits option.splits)

lemma main_after_collect:
  assumes "collect_rows env argv w = (collected, w2)"
  shows "(case collected of
            Inl err \<Rightarrow>
              fst (main env argv w) = Inl err \<and>
              new_calls w (snd (main env argv w)) = [] \<and>
              new_files w (snd (main env argv w)) = []
          | Inr all_rows \<Rightarrow>
              fst (main env argv w) = outcome_of env (dedupe all_rows) \<and>
              new_calls w (snd (main env argv w)) = [all_rows] \<and>
              new_files w (snd (main env argv w)) = files_of env (dedupe all_rows))"
proof (cases collected)
  case (Inl err)
  have "written w2 = written w \<and> dedupe_calls w2 = dedupe_calls w"
    using collect_rows_frame [of env argv w] assms by simp
  then show ?thesis
    using assms Inl by (simp add: main_def new_files_def new_calls_def)
next
  case (Inr all_rows)
  have f: "written w2 = written w \<and> dedupe_calls w2 = dedupe_calls w"
    using collect_rows_frame [of env argv w] assms by simp
  let ?w3 = "w2\<lparr>dedupe_calls := dedupe_calls w2 @ [all_rows]\<rparr>"
  show ?thesis
  proof (cases "dedupe all_rows = []")
    case True
    then show ?thesis
      using assms Inr f
      by (simp add: main_def new_files_def new_calls_def files_of_def outcome_of_def)
  next
    case False
    obtain res evs where sv: "save env (dedupe all_rows) world0 = (res, evs)"
      by (cases "save env (dedupe all_rows) world0")
    have at: "save env (dedupe all_rows) ?w3 = (res, ?w3\<lparr>written := written ?w3 @ written evs\<rparr>)"
      using save_at [of env "dedupe all_rows" ?w3] sv by simp
    show ?thesis
      using assms Inr f False sv at
      by (cases res)
        (simp_all add: main_def Let_def new_files_def new_calls_def files_of_def outcome_of_def
          foldl_print_frame)
  qed
qed

lemma trimmed_key:
  "strip (link x) = link x \<and> strip (title x) = title x \<Longrightarrow> dedupe_key x = spec_key x"
  by (simp add: dedupe_key_def spec_key_def py_or_def)

lemma spec_key_Nil: "spec_key x = [] \<longleftrightarrow> link x = [] \<and> title x = []"
  by (simp add: spec_key_def)

lemma dedupe_member_trimmed:
  assumes "\<forall>x \<in> set rows. strip (link x) = link x \<and> strip (title x) = title x"
  shows "x \<in> set (dedupe rows) \<longleftrightarrow>
     \<not> (link x = [] \<and> title x = []) \<and> List.find (\<lambda>y. spec_key y = spec_key x) rows = Some x"
proof -
  have same: "List.find (\<lambda>y. spec_key y = spec_key x) rows =
      List.find (\<lambda>y. dedupe_key y = dedupe_key x) rows"
    if "x \<in> set rows"
  proof (rule find_cong)
    show "rows = rows" by simp
  next
    fix y assume "y \<in> set rows"
    then show "(spec_key y = spec_key x) = (dedupe_key y = dedupe_key x)"
      using assms that by (simp add: trimmed_key)
  qed
  show ?thesis
  proof
    assume m: "x \<in> set (dedupe rows)"
    then have d: "dedupe_key x \<noteq> [] \<and> List.find (\<lambda>y. dedupe_key y = dedupe_key x) rows = Some x"
      by (simp add: dedupe_member_iff)
    then have in_rows: "x \<in> set rows" by (auto simp: find_Some_iff)
    then have "dedupe_key x = spec_key x" using assms by (simp add: trimmed_key)
    then show "\<not> (link x = [] \<and> title x = []) \<and>
        List.find (\<lambda>y. spec_key y = spec_key x) rows = Some x"
      using d same [OF in_rows] spec_key_Nil [of x] by simp
  next
    assume a: "\<not> (link x = [] \<and> title x = []) \<and>
        List.find (\<lambda>y. spec_key y = spec_key x) rows = Some x"
    then have in_rows: "x \<in> set rows" by (auto simp: find_Some_iff)
    then have "dedupe_key x = spec_key x" using assms by (simp add: trimmed_key)
    then have "dedupe_key x \<noteq> [] \<and> List.find (\<lambda>y. dedupe_key y = dedupe_key x) rows = Some x"
      using a same [OF in_rows] spec_key_Nil [of x] by simp
    then show "x \<in> set (dedupe rows)" by (simp add: dedupe_member_iff)
  qed
qed

lemma dedupe_distinct_trimmed:
  assumes "\<forall>x \<in> set rows. strip (link x) = link x \<and> strip (title x) = title x"
  shows "distinct (map spec_key (dedupe rows))"
proof -
  have "set (dedupe rows) \<subseteq> set rows"
    unfolding dedupe_def using dedupe_loop_subseq by (rule subseq_set_subset)
  then have eq: "map spec_key (dedupe rows) = map dedupe_key (dedupe rows)"
    using assms by (auto simp: trimmed_key)
  have "distinct (map dedupe_key (dedupe rows))"
    unfolding dedupe_def by (rule dedupe_loop_distinct)
  then show ?thesis by (simp only: eq)
qed

text \<open>
  C4. \<open>dedupe\<close> returns an order-preserving subsequence of its input, never longer
  than the input, and drops every row whose link and title are both empty. On every
  input it can receive, that is on rows whose link and title are trimmed, as all
  rows are that \<open>main\<close> passes to it (they are built at lines 84--85 with \<open>strip\<close>), the
  key of a row is its link if non-empty, else its title, and the first occurrence of
  each key wins: a row is in the output exactly when its link and title are not both
  empty and it is the first row of the input with its key, so that no key occurs
  twice in the output; \<open>dedupe\<close> is then the Deduplicator as the specification words
  it.
\<close>

theorem dedupe_first_occurrence_wins:
  "subseq (dedupe rows) rows \<and>
   length (dedupe rows) \<le> length rows \<and>
   (link r = [] \<and> title r = [] \<longrightarrow> r \<notin> set (dedupe rows)) \<and>
   ((\<forall>x \<in> set rows. strip (link x) = link x \<and> strip (title x) = title x) \<longrightarrow>
      distinct (map spec_key (dedupe rows)) \<and>
      (\<forall>x. x \<in> set (dedupe rows) \<longleftrightarrow>
         \<not> (link x = [] \<and> title x = []) \<and>
         List.find (\<lambda>y. spec_key y = spec_key x) rows = Some x) \<and>
      dedupe rows = spec_dedupe rows) \<and>
   (collect_rows env argv w = (Inr rows, w2) \<longrightarrow>
      (\<forall>x \<in> set rows. strip (link x) = link x \<and> strip (title x) = title x))"
proof -
  have sub: "subseq (dedupe rows) rows"
    unfolding dedupe_def by (rule dedupe_loop_subseq)
  have len: "length (dedupe rows) \<le> length rows"
    using sub by (rule list_emb_length)
  have empty: "r \<notin> set (dedupe rows)" if "link r = [] \<and> title r = []"
  proof -
    have "dedupe_key r = []"
      using that by (simp add: dedupe_key_def py_or_def strip_def)
    then show ?thesis by (simp add: dedupe_member_iff)
  qed
  have trimmed: "distinct (map spec_key (dedupe rows)) \<and>
      (\<forall>x. x \<in> set (dedupe rows) \<longleftrightarrow>
         \<not> (link x = [] \<and> title x = []) \<and>
         List.find (\<lambda>y. spec_key y = spec_key x) rows = Some x) \<and>
      dedupe rows = spec_dedupe rows"
    if t: "\<forall>x \<in> set rows. strip (link x) = link x \<and> strip (title x) = title x"
  proof -
    have "dedupe rows = spec_dedupe rows"
      unfolding dedupe_def spec_dedupe_def using t by (rule dedupe_loop_trimmed)
    then show ?thesis
      using dedupe_distinct_trimmed [OF t] dedupe_member_trimmed [OF t] by blast
  qed
  have run: "\<forall>x \<in> set rows. strip (link x) = link x \<and> strip (title x) = title x"
    if "collect_rows env argv w = (Inr rows, w2)"
    using that by (rule collect_rows_trimmed)
  show ?thesis
    using sub len empty trimmed run by blast
qed

lemma collect_rows_global:
  assumes "MODE argv = global_top" and "collect_rows env argv w = (Inr rows, w2)"
  shows "(\<forall>r \<in> set rows. published_dt r \<noteq> None) \<and>
         sorted_wrt (\<lambda>a b. dt_ge (published_dt a) (published_dt b)) rows \<and>
         length rows \<le> nat TOTAL_GLOBAL_TOP"
proof -
  obtain all_rows w' where f: "fetch_sources env FEEDS MAX_PER_SOURCE_FOR_GLOBAL []
      (print_line (ModeLine global_top) w) = (all_rows, w')"
    by (cases "fetch_sources env FEEDS MAX_PER_SOURCE_FOR_GLOBAL [] (print_line (ModeLine global_top) w)")
  let ?dated = "filter (\<lambda>r. published_dt r \<noteq> None) all_rows"
  obtain s where s: "py_sort_reverse published_dt ?dated = Inr s"
    and rows: "rows = py_slice_to s TOTAL_GLOBAL_TOP"
    using assms f by (auto simp: collect_rows_def Let_def split: sum.splits)
  have sub: "subseq rows s" unfolding rows by (rule py_slice_to_subseq)
  have "set s = set ?dated" using s by (rule py_sort_reverse_sorted(2))
  then have d: "\<forall>r \<in> set rows. published_dt r \<noteq> None"
    using subseq_set_subset [OF sub] by auto
  have "sorted_wrt (\<lambda>a b. dt_ge (published_dt a) (published_dt b)) s"
    using s by (rule py_sort_reverse_sorted(1))
  with sub have so: "sorted_wrt (\<lambda>a b. dt_ge (published_dt a) (published_dt b)) rows"
    by (rule sorted_wrt_subseq)
  have "length rows \<le> nat TOTAL_GLOBAL_TOP"
    by (simp add: rows py_slice_to_def TOTAL_GLOBAL_TOP_def)
  with d so show ?thesis by simp
qed

text \<open>
  C3. In \<open>global_top\<close> mode the final output, the rows handed to the writers, all have
  a timestamp, are sorted non-increasing by it, and are at most \<open>TOTAL_GLOBAL_TOP\<close> = 4:
  every file written or attempted in the run carries these rows (none is when the
  output is empty or the sort raises).
\<close>

theorem global_top_output:
  assumes "MODE argv = global_top"
  shows "TOTAL_GLOBAL_TOP = 4 \<and>
    (\<exists>rows.
       (\<forall>r \<in> set rows. published_dt r \<noteq> None) \<and>
       sorted_wrt (\<lambda>a b. dt_ge (published_dt a) (published_dt b)) rows \<and>
       length rows \<le> nat TOTAL_GLOBAL_TOP \<and>
       new_files w (snd (main env argv w)) = files_of env rows \<and>
       (\<forall>ev \<in> set (new_files w (snd (main env argv w))). event_rows ev = rows))"
proof -
  obtain collected w2 where c: "collect_rows env argv w = (collected, w2)"
    by (cases "collect_rows env argv w")
  note m = main_after_collect [OF c]
  have "\<exists>rows.
       (\<forall>r \<in> set rows. published_dt r \<noteq> None) \<and>
       sorted_wrt (\<lambda>a b. dt_ge (published_dt a) (published_dt b)) rows \<and>
       length rows \<le> nat TOTAL_GLOBAL_TOP \<and>
       new_files w (snd (main env argv w)) = files_of env rows"
  proof (cases collected)
    case (Inl err)
    then have "new_files w (snd (main env argv w)) = files_of env []"
      using m by (simp add: files_of_def)
    then show ?thesis by (intro exI [of _ "[]"]) simp
  next
    case (Inr all_rows)
    then have g: "(\<forall>r \<in> set all_rows. published_dt r \<noteq> None) \<and>
         sorted_wrt (\<lambda>a b. dt_ge (published_dt a) (published_dt b)) all_rows \<and>
         length all_rows \<le> nat TOTAL_GLOBAL_TOP"
      using collect_rows_global [OF assms] c by simp
    have sub: "subseq (dedupe all_rows) all_rows"
      unfolding dedupe_def by (rule dedupe_loop_subseq)
    have 1: "\<forall>r \<in> set (dedupe all_rows). published_dt r \<noteq> None"
      using g subseq_set_subset [OF sub] by auto
    have 2: "sorted_wrt (\<lambda>a b. dt_ge (published_dt a) (published_dt b)) (dedupe all_rows)"
      using sub g by (blast intro: sorted_wrt_subseq)
    have 3: "length (dedupe all_rows) \<le> nat TOTAL_GLOBAL_TOP"
      using list_emb_length [OF sub] g by simp
    have "new_files w (snd (main env argv w)) = files_of env (dedupe all_rows)"
      using m Inr by simp
    with 1 2 3 show ?thesis by blast
  qed
  then obtain rows where r: "(\<forall>r \<in> set rows. published_dt r \<noteq> None) \<and>
       sorted_wrt (\<lambda>a b. dt_ge (published_dt a) (published_dt b)) rows \<and>
       length rows \<le> nat TOTAL_GLOBAL_TOP"
    and f: "new_files w (snd (main env argv w)) = files_of env rows"
    by blast
  have "\<forall>ev \<in> set (new_files w (snd (main env argv w))). event_rows ev = rows"
    unfolding f using files_of_rows by blast
  then show ?thesis
    using r f by (auto simp: TOTAL_GLOBAL_TOP_def)
qed

text \<open>
  C7. If the final list of rows is empty after \<open>dedupe\<close>, \<open>main\<close> prints the diagnostic
  line, returns without an exception and writes no file.
\<close>

theorem empty_result_writes_nothing:
  assumes "collect_rows env argv w = (Inr all_rows, w2)" and "dedupe all_rows = []"
  shows "main env argv w =
           (Inr (), print_line NoHeadlines (w2\<lparr>dedupe_calls := dedupe_calls w2 @ [all_rows]\<rparr>)) \<and>
         console (snd (main env argv w)) = console w2 @ [NoHeadlines] \<and>
         written (snd (main env argv w)) = written w"
proof -
  have "written w2 = written w"
    using collect_rows_frame [of env argv w] assms(1) by simp
  then show ?thesis
    using assms by (simp add: main_def print_line_def)
qed

text \<open>
  C1 (as amended). A \<open>per_source\<close> run applies \<open>dedupe\<close> exactly once, to the
  concatenation of all per-source batches. A \<open>global_top\<close> run applies the
  discard-undated/sort/truncate step to the concatenation of all per-source batches
  as fetched, not deduplicated; when the sort raises (timestamps that cannot be
  ordered), the run ends there with \<open>TypeError\<close>, \<open>dedupe\<close> is not applied and nothing
  is written; otherwise \<open>dedupe\<close> is applied exactly once, afterwards, to the at most
  \<open>TOTAL_GLOBAL_TOP\<close> rows that step selects. In both modes the output of \<open>dedupe\<close> is
  the final list: it is what the writers are given, and the run ends as \<open>save\<close> ends on
  it (or returns at once when it is empty).
\<close>

theorem dedupe_runs_last:
  "(MODE argv = per_source \<longrightarrow>
      new_calls w (snd (main env argv w)) =
        [concat (source_batches env FEEDS HEADLINES_PER_SOURCE
           (print_line (ModeLine per_source) w))] \<and>
      fst (main env argv w) =
        outcome_of env (dedupe (concat (source_batches env FEEDS HEADLINES_PER_SOURCE
          (print_line (ModeLine per_source) w)))) \<and>
      new_files w (snd (main env argv w)) =
        files_of env (dedupe (concat (source_batches env FEEDS HEADLINES_PER_SOURCE
          (print_line (ModeLine per_source) w))))) \<and>
   (MODE argv = global_top \<longrightarrow>
      (case py_sort_reverse published_dt
              (filter (\<lambda>r. published_dt r \<noteq> None)
                 (concat (source_batches env FEEDS MAX_PER_SOURCE_FOR_GLOBAL
                    (print_line (ModeLine global_top) w)))) of
         Inl err \<Rightarrow>
           fst (main env argv w) = Inl err \<and>
           new_calls w (snd (main env argv w)) = [] \<and>
           new_files w (snd (main env argv w)) = []
       | Inr sorted_rows \<Rightarrow>
           new_calls w (snd (main env argv w)) = [py_slice_to sorted_rows TOTAL_GLOBAL_TOP] \<and>
           fst (main env argv w) =
             outcome_of env (dedupe (py_slice_to sorted_rows TOTAL_GLOBAL_TOP)) \<and>
           new_files w (snd (main env argv w)) =
             files_of env (dedupe (py_slice_to sorted_rows TOTAL_GLOBAL_TOP))))"
proof (intro conjI impI)
  assume p: "MODE argv = per_source"
  let ?w1 = "print_line (ModeLine per_source) w"
  let ?all = "concat (source_batches env FEEDS HEADLINES_PER_SOURCE ?w1)"
  have "collect_rows env argv w =
      (Inr (fst (fetch_sources env FEEDS HEADLINES_PER_SOURCE [] ?w1)),
       snd (fetch_sources env FEEDS HEADLINES_PER_SOURCE [] ?w1))"
    using p by (simp add: collect_rows_def Let_def split: prod.splits)
  from main_after_collect [OF this]
  show "new_calls w (snd (main env argv w)) = [?all]"
    and "fst (main env argv w) = outcome_of env (dedupe ?all)"
    and "new_files w (snd (main env argv w)) = files_of env (dedupe ?all)"
    by (simp_all add: fetch_sources_batches)
next
  assume g: "MODE argv = global_top"
  let ?w1 = "print_line (ModeLine global_top) w"
  let ?all = "fst (fetch_sources env FEEDS MAX_PER_SOURCE_FOR_GLOBAL [] ?w1)"
  let ?w2 = "snd (fetch_sources env FEEDS MAX_PER_SOURCE_FOR_GLOBAL [] ?w1)"
  let ?sorted = "py_sort_reverse published_dt (filter (\<lambda>r. published_dt r \<noteq> None) ?all)"
  have c: "collect_rows env argv w =
      (case ?sorted of Inl err \<Rightarrow> Inl err
        | Inr sorted_rows \<Rightarrow> Inr (py_slice_to sorted_rows TOTAL_GLOBAL_TOP), ?w2)"
    using g by (simp add: collect_rows_def Let_def split: prod.splits sum.splits)
  have all: "?all = concat (source_batches env FEEDS MAX_PER_SOURCE_FOR_GLOBAL ?w1)"
    by (simp add: fetch_sources_batches)
  show "case py_sort_reverse published_dt
              (filter (\<lambda>r. published_dt r \<noteq> None)
                 (concat (source_batches env FEEDS MAX_PER_SOURCE_FOR_GLOBAL ?w1))) of
         Inl err \<Rightarrow>
           fst (main env argv w) = Inl err \<and>
           new_calls w (snd (main env argv w)) = [] \<and>
           new_files w (snd (main env argv w)) = []
       | Inr sorted_rows \<Rightarrow>
           new_calls w (snd (main env argv w)) = [py_slice_to sorted_rows TOTAL_GLOBAL_TOP] \<and>
           fst (main env argv w) =
             outcome_of env (dedupe (py_slice_to sorted_rows TOTAL_GLOBAL_TOP)) \<and>
           new_files w (snd (main env argv w)) =
             files_of env (dedupe (py_slice_to sorted_rows TOTAL_GLOBAL_TOP))"
    using main_after_collect [OF c] unfolding all
    by (simp split: sum.splits)
qed

subsection \<open>Runs on example feeds\<close>

lemmas run_simps = stub_env_def dup_env_def five_entries_def mk_entry_def six_fields_def
  fetch_feed_text_def parse_with_feedparser_from_text_def print_line_def world0_def Let_def
  py_slice_to_def entry_row_def getattr_str_def py_or_def strip_def isspace_def FEEDS_def
  MODE_def lower_def lower_char_def HEADLINES_PER_SOURCE_def MAX_PER_SOURCE_FOR_GLOBAL_def
  TOTAL_GLOBAL_TOP_def collect_rows_def py_sort_reverse_def dedupe_def dedupe_key_def
  dated_row_def snippet_def failing_env_def mixed_env_def mixed_entries_def excel_fails_env_def

lemma mode_global: "MODE [''news_scraper.py'', ''global''] = global_top"
  by (simp add: MODE_def lower_def lower_char_def)

lemma mode_default: "MODE [''news_scraper.py''] = per_source"
  by (simp add: MODE_def)

lemma batches_global:
  "source_batches dup_env FEEDS MAX_PER_SOURCE_FOR_GLOBAL (print_line (ModeLine global_top) world0) =
     [[dated_row ''C'' ''https://t/3'' 8, dated_row ''A'' ''https://t/1'' 10,
       dated_row ''E'' ''https://t/5'' 6, dated_row ''A again'' ''https://t/1'' 9,
       dated_row ''D'' ''https://t/4'' 7], []]"
  by (simp add: run_simps)

lemma collect_global:
  "fst (collect_rows dup_env [''news_scraper.py'', ''global''] world0) =
     Inr [dated_row ''A'' ''https://t/1'' 10, dated_row ''A again'' ''https://t/1'' 9,
       dated_row ''C'' ''https://t/3'' 8, dated_row ''D'' ''https://t/4'' 7]"
  by (simp add: run_simps)

lemma collect_global_excel:
  "fst (collect_rows excel_fails_env [''news_scraper.py'', ''global''] world0) =
     Inr [dated_row ''A'' ''https://t/1'' 10, dated_row ''A again'' ''https://t/1'' 9,
       dated_row ''C'' ''https://t/3'' 8, dated_row ''D'' ''https://t/4'' 7]"
  by (simp add: run_simps)

lemma collect_default:
  "fst (collect_rows dup_env [''news_scraper.py''] world0) =
     Inr [dated_row ''C'' ''https://t/3'' 8, dated_row ''A'' ''https://t/1'' 10,
       dated_row ''E'' ''https://t/5'' 6, dated_row ''A again'' ''https://t/1'' 9]"
  by (simp add: run_simps)

lemma collect_failing:
  "fst (collect_rows failing_env [''news_scraper.py''] world0) = Inr []"
  by (simp add: run_simps)

lemma collect_mixed:
  "fst (collect_rows mixed_env [''news_scraper.py'', ''global''] world0) = Inl TypeError"
  by (simp add: run_simps)

lemma main_run:
  assumes "fst (collect_rows env argv w) = collected"
  shows "(case collected of
            Inl err \<Rightarrow>
              fst (main env argv w) = Inl err \<and>
              new_calls w (snd (main env argv w)) = [] \<and>
              new_files w (snd (main env argv w)) = []
          | Inr all_rows \<Rightarrow>
              fst (main env argv w) = outcome_of env (dedupe all_rows) \<and>
              new_calls w (snd (main env argv w)) = [all_rows] \<and>
              new_files w (snd (main env argv w)) = files_of env (dedupe all_rows))"
proof -
  have "collect_rows env argv w = (collected, snd (collect_rows env argv w))"
    using assms by (simp add: prod_eq_iff)
  then show ?thesis by (rule main_after_collect)
qed

lemma dedupe_global_rows:
  "dedupe [dated_row ''A'' ''https://t/1'' 10, dated_row ''A again'' ''https://t/1'' 9,
       dated_row ''C'' ''https://t/3'' 8, dated_row ''D'' ''https://t/4'' 7] =
     [dated_row ''A'' ''https://t/1'' 10, dated_row ''C'' ''https://t/3'' 8,
       dated_row ''D'' ''https://t/4'' 7]"
  by (simp add: dedupe_def dedupe_key_def dated_row_def py_or_def strip_def isspace_def)

lemma dedupe_default_rows:
  "dedupe [dated_row ''C'' ''https://t/3'' 8, dated_row ''A'' ''https://t/1'' 10,
       dated_row ''E'' ''https://t/5'' 6, dated_row ''A again'' ''https://t/1'' 9] =
     [dated_row ''C'' ''https://t/3'' 8, dated_row ''A'' ''https://t/1'' 10,
       dated_row ''E'' ''https://t/5'' 6]"
  by (simp add: dedupe_def dedupe_key_def dated_row_def py_or_def strip_def isspace_def)

lemma run_global:
  "fst (main dup_env [''news_scraper.py'', ''global''] world0) = Inr () \<and>
   new_calls world0 (snd (main dup_env [''news_scraper.py'', ''global''] world0)) =
     [[dated_row ''A'' ''https://t/1'' 10, dated_row ''A again'' ''https://t/1'' 9,
       dated_row ''C'' ''https://t/3'' 8, dated_row ''D'' ''https://t/4'' 7]] \<and>
   new_files world0 (snd (main dup_env [''news_scraper.py'', ''global''] world0)) =
     [Wrote CSV_OUT [dated_row ''A'' ''https://t/1'' 10, dated_row ''C'' ''https://t/3'' 8,
        dated_row ''D'' ''https://t/4'' 7],
      Wrote XLSX_OUT [dated_row ''A'' ''https://t/1'' 10, dated_row ''C'' ''https://t/3'' 8,
        dated_row ''D'' ''https://t/4'' 7]]"
  using main_run [OF collect_global]
  by (simp add: dedupe_global_rows outcome_of_def files_of_def save_def dup_env_def stub_env_def
      world0_def)

lemma run_global_excel:
  "fst (main excel_fails_env [''news_scraper.py'', ''global''] world0) =
     Inl (WriterError ''IllegalCharacterError'') \<and>
   new_files world0 (snd (main excel_fails_env [''news_scraper.py'', ''global''] world0)) =
     [Wrote CSV_OUT [dated_row ''A'' ''https://t/1'' 10, dated_row ''C'' ''https://t/3'' 8,
        dated_row ''D'' ''https://t/4'' 7],
      WriteFailed XLSX_OUT [dated_row ''A'' ''https://t/1'' 10, dated_row ''C'' ''https://t/3'' 8,
        dated_row ''D'' ''https://t/4'' 7]]"
  using main_run [OF collect_global_excel]
  by (simp add: dedupe_global_rows outcome_of_def files_of_def save_def excel_fails_env_def
      dup_env_def stub_env_def world0_def)

lemma run_default:
  "fst (main dup_env [''news_scraper.py''] world0) = Inr () \<and>
   new_calls world0 (snd (main dup_env [''news_scraper.py''] world0)) =
     [[dated_row ''C'' ''https://t/3'' 8, dated_row ''A'' ''https://t/1'' 10,
       dated_row ''E'' ''https://t/5'' 6, dated_row ''A again'' ''https://t/1'' 9]] \<and>
   new_files world0 (snd (main dup_env [''news_scraper.py''] world0)) =
     [Wrote CSV_OUT [dated_row ''C'' ''https://t/3'' 8, dated_row ''A'' ''https://t/1'' 10,
        dated_row ''E'' ''https://t/5'' 6],
      Wrote XLSX_OUT [dated_row ''C'' ''https://t/3'' 8, dated_row ''A'' ''https://t/1'' 10,
        dated_row ''E'' ''https://t/5'' 6]]"
  using main_run [OF collect_default]
  by (simp add: dedupe_default_rows outcome_of_def files_of_def save_def dup_env_def stub_env_def
      world0_def)

lemma run_mixed:
  "fst (main mixed_env [''news_scraper.py'', ''global''] world0) = Inl TypeError \<and>
   new_calls world0 (snd (main mixed_env [''news_scraper.py'', ''global''] world0)) = [] \<and>
   new_files world0 (snd (main mixed_env [''news_scraper.py'', ''global''] world0)) = []"
  using main_run [OF collect_mixed] by simp

lemma spec_global:
  "spec_pipeline dup_env [''news_scraper.py'', ''global''] world0 =
     Inr [dated_row ''A'' ''https://t/1'' 10, dated_row ''C'' ''https://t/3'' 8,
       dated_row ''D'' ''https://t/4'' 7, dated_row ''E'' ''https://t/5'' 6]"
  unfolding spec_pipeline_def mode_global
  by (simp add: batches_global)
    (simp add: spec_selector_def py_sort_reverse_def py_slice_to_def TOTAL_GLOBAL_TOP_def
      dedupe_def dedupe_key_def dated_row_def py_or_def strip_def isspace_def six_fields_def)

theorem dedupe_runs_last_witness:
  "MODE [''news_scraper.py''] = per_source \<and>
   fst (main dup_env [''news_scraper.py''] world0) = Inr () \<and>
   new_calls world0 (snd (main dup_env [''news_scraper.py''] world0)) =
     [[dated_row ''C'' ''https://t/3'' 8, dated_row ''A'' ''https://t/1'' 10,
       dated_row ''E'' ''https://t/5'' 6, dated_row ''A again'' ''https://t/1'' 9]] \<and>
   new_files world0 (snd (main dup_env [''news_scraper.py''] world0)) =
     [Wrote CSV_OUT [dated_row ''C'' ''https://t/3'' 8, dated_row ''A'' ''https://t/1'' 10,
        dated_row ''E'' ''https://t/5'' 6],
      Wrote XLSX_OUT [dated_row ''C'' ''https://t/3'' 8, dated_row ''A'' ''https://t/1'' 10,
        dated_row ''E'' ''https://t/5'' 6]] \<and>
   MODE [''news_scraper.py'', ''global''] = global_top \<and>
   fst (main dup_env [''news_scraper.py'', ''global''] world0) = Inr () \<and>
   new_calls world0 (snd (main dup_env [''news_scraper.py'', ''global''] world0)) =
     [[dated_row ''A'' ''https://t/1'' 10, dated_row ''A again'' ''https://t/1'' 9,
       dated_row ''C'' ''https://t/3'' 8, dated_row ''D'' ''https://t/4'' 7]] \<and>
   new_files world0 (snd (main dup_env [''news_scraper.py'', ''global''] world0)) =
     [Wrote CSV_OUT [dated_row ''A'' ''https://t/1'' 10, dated_row ''C'' ''https://t/3'' 8,
        dated_row ''D'' ''https://t/4'' 7],
      Wrote XLSX_OUT [dated_row ''A'' ''https://t/1'' 10, dated_row ''C'' ''https://t/3'' 8,
        dated_row ''D'' ''https://t/4'' 7]] \<and>
   fst (main mixed_env [''news_scraper.py'', ''global''] world0) = Inl TypeError \<and>
   new_calls world0 (snd (main mixed_env [''news_scraper.py'', ''global''] world0)) = [] \<and>
   new_files world0 (snd (main mixed_env [''news_scraper.py'', ''global''] world0)) = []"
  using dedupe_runs_last [of "[''news_scraper.py'']" world0 dup_env]
    dedupe_runs_last [of "[''news_scraper.py'', ''global'']" world0 dup_env]
    dedupe_runs_last [of "[''news_scraper.py'', ''global'']" world0 mixed_env]
    mode_default mode_global run_default run_global run_mixed
  by blast

text \<open>
  C1 as stated fails in \<open>global_top\<close> mode: with five dated rows of which the two
  latest share a link, the run truncates to the four latest and then drops the
  duplicate, writing three rows; deduplicating first and selecting afterwards, as
  the claim words it, gives four.
\<close>

theorem dedupe_before_selection_counterexample:
  "new_files world0 (snd (main dup_env [''news_scraper.py'', ''global''] world0)) =
     [Wrote CSV_OUT [dated_row ''A'' ''https://t/1'' 10, dated_row ''C'' ''https://t/3'' 8,
        dated_row ''D'' ''https://t/4'' 7],
      Wrote XLSX_OUT [dated_row ''A'' ''https://t/1'' 10, dated_row ''C'' ''https://t/3'' 8,
        dated_row ''D'' ''https://t/4'' 7]] \<and>
   spec_pipeline dup_env [''news_scraper.py'', ''global''] world0 =
     Inr [dated_row ''A'' ''https://t/1'' 10, dated_row ''C'' ''https://t/3'' 8,
       dated_row ''D'' ''https://t/4'' 7, dated_row ''E'' ''https://t/5'' 6]"
  using run_global spec_global by blast

theorem global_top_output_witness:
  "MODE [''news_scraper.py'', ''global''] = global_top \<and>
   TOTAL_GLOBAL_TOP = 4 \<and>
   new_files world0 (snd (main dup_env [''news_scraper.py'', ''global''] world0)) =
     [Wrote CSV_OUT [dated_row ''A'' ''https://t/1'' 10, dated_row ''C'' ''https://t/3'' 8,
        dated_row ''D'' ''https://t/4'' 7],
      Wrote XLSX_OUT [dated_row ''A'' ''https://t/1'' 10, dated_row ''C'' ''https://t/3'' 8,
        dated_row ''D'' ''https://t/4'' 7]] \<and>
   fst (main excel_fails_env [''news_scraper.py'', ''global''] world0) =
     Inl (WriterError ''IllegalCharacterError'') \<and>
   new_files world0 (snd (main excel_fails_env [''news_scraper.py'', ''global''] world0)) =
     [Wrote CSV_OUT [dated_row ''A'' ''https://t/1'' 10, dated_row ''C'' ''https://t/3'' 8,
        dated_row ''D'' ''https://t/4'' 7],
      WriteFailed XLSX_OUT [dated_row ''A'' ''https://t/1'' 10, dated_row ''C'' ''https://t/3'' 8,
        dated_row ''D'' ''https://t/4'' 7]] \<and>
   sorted_wrt (\<lambda>a b. dt_ge (published_dt a) (published_dt b))
     [dated_row ''A'' ''https://t/1'' 10, dated_row ''C'' ''https://t/3'' 8,
       dated_row ''D'' ''https://t/4'' 7] \<and>
   published_dt (dated_row ''D'' ''https://t/4'' 7) \<noteq> None"
proof -
  have s: "sorted_wrt (\<lambda>a b. dt_ge (published_dt a) (published_dt b))
     [dated_row ''A'' ''https://t/1'' 10, dated_row ''C'' ''https://t/3'' 8,
       dated_row ''D'' ''https://t/4'' 7] \<and>
     published_dt (dated_row ''D'' ''https://t/4'' 7) \<noteq> None"
    by (simp add: dated_row_def six_fields_def)
  show ?thesis
    using global_top_output [OF mode_global, of world0 dup_env]
      global_top_output [OF mode_global, of world0 excel_fails_env]
      mode_global run_global run_global_excel s
    by blast
qed

theorem empty_result_writes_nothing_witness:
  "fst (collect_rows failing_env [''news_scraper.py''] world0) = Inr [] \<and>
   dedupe [] = [] \<and>
   fst (main failing_env [''news_scraper.py''] world0) = Inr () \<and>
   last (console (snd (main failing_env [''news_scraper.py''] world0))) = NoHeadlines \<and>
   written (snd (main failing_env [''news_scraper.py''] world0)) = []"
proof -
  have c: "collect_rows failing_env [''news_scraper.py''] world0 =
      (Inr [], snd (collect_rows failing_env [''news_scraper.py''] world0))"
    using collect_failing by (simp add: prod_eq_iff)
  have d: "dedupe [] = []" by (simp add: dedupe_def)
  note t = empty_result_writes_nothing [OF c d]
  have 1: "fst (main failing_env [''news_scraper.py''] world0) = Inr ()"
    using t [THEN conjunct1] by simp
  have 2: "last (console (snd (main failing_env [''news_scraper.py''] world0))) = NoHeadlines"
    using t [THEN conjunct2, THEN conjunct1] by simp
  have 3: "written (snd (main failing_env [''news_scraper.py''] world0)) = []"
    using t [THEN conjunct2, THEN conjunct2] by (simp add: world0_def)
  from collect_failing d 1 2 3 show ?thesis by (intro conjI)
qed

theorem dedupe_first_occurrence_wins_witness:
  "list_all (\<lambda>x. strip (link x) = link x \<and> strip (title x) = title x) dup_rows \<and>
   dedupe dup_rows = [mk_row ''A'' ''https://x/y'', mk_row ''B'' []] \<and>
   spec_dedupe dup_rows = [mk_row ''A'' ''https://x/y'', mk_row ''B'' []] \<and>
   link (mk_row [] []) = [] \<and> title (mk_row [] []) = [] \<and>
   mk_row [] [] \<notin> set (dedupe dup_rows) \<and>
   fst (collect_rows dup_env [''news_scraper.py''] world0) =
     Inr [dated_row ''C'' ''https://t/3'' 8, dated_row ''A'' ''https://t/1'' 10,
       dated_row ''E'' ''https://t/5'' 6, dated_row ''A again'' ''https://t/1'' 9] \<and>
   list_all (\<lambda>x. strip (link x) = link x \<and> strip (title x) = title x)
     [dated_row ''C'' ''https://t/3'' 8, dated_row ''A'' ''https://t/1'' 10,
       dated_row ''E'' ''https://t/5'' 6, dated_row ''A again'' ''https://t/1'' 9]"
proof -
  have c: "collect_rows dup_env [''news_scraper.py''] world0 =
      (Inr [dated_row ''C'' ''https://t/3'' 8, dated_row ''A'' ''https://t/1'' 10,
         dated_row ''E'' ''https://t/5'' 6, dated_row ''A again'' ''https://t/1'' 9],
       snd (collect_rows dup_env [''news_scraper.py''] world0))"
    using collect_default by (simp add: prod_eq_iff)
  have t: "list_all (\<lambda>x. strip (link x) = link x \<and> strip (title x) = title x) dup_rows"
    by (simp add: dup_rows_def mk_row_def strip_def isspace_def)
  have 1: "dedupe dup_rows = [mk_row ''A'' ''https://x/y'', mk_row ''B'' []] \<and>
      spec_dedupe dup_rows = [mk_row ''A'' ''https://x/y'', mk_row ''B'' []] \<and>
      link (mk_row [] []) = [] \<and> title (mk_row [] []) = [] \<and>
      mk_row [] [] \<notin> set (dedupe dup_rows)"
    using dedupe_first_occurrence_wins [of dup_rows "mk_row [] []"] t
    by (simp add: dup_rows_def mk_row_def spec_dedupe_def spec_key_def list_all_iff)
  have 2: "list_all (\<lambda>x. strip (link x) = link x \<and> strip (title x) = title x)
     [dated_row ''C'' ''https://t/3'' 8, dated_row ''A'' ''https://t/1'' 10,
       dated_row ''E'' ''https://t/5'' 6, dated_row ''A again'' ''https://t/1'' 9]"
    using dedupe_first_occurrence_wins
      [of "[dated_row ''C'' ''https://t/3'' 8, dated_row ''A'' ''https://t/1'' 10,
         dated_row ''E'' ''https://t/5'' 6, dated_row ''A again'' ''https://t/1'' 9]"
        "mk_row [] []" dup_env "[''news_scraper.py'']" world0] c
    by (simp add: list_all_iff)
  from t 1 collect_default 2 show ?thesis by blast
qed

text \<open>
  Called directly on a row that is not trimmed, \<open>dedupe\<close> trims the key at line 115:
  a row whose link is a single space is dropped. No run passes such a row to it.
\<close>

lemma dedupe_untrimmed_link:
  "link blank_link_row \<noteq> [] \<and>
   spec_dedupe [blank_link_row] = [blank_link_row] \<and>
   dedupe [blank_link_row] = []"
  by (simp add: blank_link_row_def mk_row_def spec_dedupe_def spec_key_def dedupe_def
      dedupe_key_def py_or_def strip_def isspace_def)

end
